theory Spec2Isabelle
  imports Main "HOL-Library.AList"
begin

section \<open>JavaScript values and strings\<close>

text \<open>
  A JavaScript string is a sequence of code units; it is modelled as a \<^typ>\<open>string\<close>, one
  \<^typ>\<open>char\<close> per code unit, which covers the code units \<open>0x00\<close> to \<open>0xFF\<close>. Every
  character the exporter treats specially lies in that range: ampersand, less-than,
  greater-than, the double quote, the space, the newline and the non-breaking space
  \<open>\xA0\<close>.
\<close>

definition NBSP :: char where
  "NBSP = CHR 0xA0"

definition NEWLINE :: char where
  "NEWLINE = CHR 0x0A"

definition DQUOTE :: char where
  "DQUOTE = CHR 0x22"

text \<open>
  The values an entity's data object or the attribute object holds (\<open>?string\<close> in the
  source's Flow types): a string, \<open>null\<close> or \<open>undefined\<close>.
\<close>

datatype jsval = JStr string | JNull | JUndefined

text \<open>The string a template literal \<open>`${v}`\<close> interpolates.\<close>

fun toString :: "jsval \<Rightarrow> string" where
  "toString (JStr s) = s"
| "toString JNull = ''null''"
| "toString JUndefined = ''undefined''"

text \<open>\<open>v != null\<close>: false for both \<open>null\<close> and \<open>undefined\<close>.\<close>

fun notNullish :: "jsval \<Rightarrow> bool" where
  "notNullish (JStr s) = True"
| "notNullish JNull = False"
| "notNullish JUndefined = False"

text \<open>
  \<open>text.split(c)\<close> for a separator of one character: the pieces between the occurrences
  of \<open>c\<close>; there is always at least one piece.
\<close>

fun split :: "char \<Rightarrow> string \<Rightarrow> string list" where
  "split c [] = [[]]"
| "split c (x # xs) =
     (if x = c then [] # split c xs
      else (case split c xs of [] \<Rightarrow> [[x]] | p # ps \<Rightarrow> (x # p) # ps))"

text \<open>\<open>pieces.join(sep)\<close>.\<close>

fun join :: "string \<Rightarrow> string list \<Rightarrow> string" where
  "join sep [] = []"
| "join sep [p] = p"
| "join sep (p # q # ps) = p @ sep @ join sep (q # ps)"

text \<open>
  An object with string keys, in the order \<open>Object.keys\<close> lists them: an association
  list. The assignment \<open>obj[k] = v\<close> is \<^const>\<open>AList.update\<close>: an existing key keeps its
  place, a new key goes to the end.
\<close>

type_synonym 'v jsobject = "(string \<times> 'v) list"

definition hasOwnProperty :: "'v jsobject \<Rightarrow> string \<Rightarrow> bool" where
  "hasOwnProperty obj k = (map_of obj k \<noteq> None)"

section \<open>Constants and tables of the exporter\<close>

definition INDENT :: string where
  "INDENT = ''  ''"

definition BREAK :: string where
  "BREAK = ''<br/>''"

section \<open>Encoding of text and attribute values\<close>

definition encodeContent :: "string \<Rightarrow> string" where
  "encodeContent text =
     join (BREAK @ [NEWLINE]) (split NEWLINE
       (join ''&nbsp;'' (split NBSP
         (join ''&gt;'' (split (CHR ''>'')
           (join ''&lt;'' (split (CHR ''<'')
             (join ''&amp;'' (split (CHR ''&'') text)))))))))"

definition encodeAttr :: "string \<Rightarrow> string" where
  "encodeAttr text =
     join ''&quot;'' (split DQUOTE
       (join ''&gt;'' (split (CHR ''>'')
         (join ''&lt;'' (split (CHR ''<'')
           (join ''&amp;'' (split (CHR ''&'') text)))))))"

section \<open>Whitespace preservation\<close>

text \<open>
  The loop of \<open>preserveWhitespace\<close>: \<open>newText\<close> is the array being filled, one
  one-character string per index; an index not yet assigned holds nothing and joins as
  the empty string.
\<close>

function preserveWhitespace_loop :: "string \<Rightarrow> nat \<Rightarrow> string list \<Rightarrow> string list" where
  "preserveWhitespace_loop text i newText =
     (if i < length text then
        preserveWhitespace_loop text (i + 1)
          (newText[i :=
             (if text ! i = CHR '' '' \<and>
                 (i = 0 \<or> i = length text - 1 \<or> text ! (i - 1) = CHR '' '')
              then [NBSP] else [text ! i])])
      else newText)"
  by pat_completeness auto
termination
  by (relation "measure (\<lambda>(text, i, newText). length text - i)") auto

declare preserveWhitespace_loop.simps [simp del]

definition preserveWhitespace :: "string \<Rightarrow> string" where
  "preserveWhitespace text =
     join [] (preserveWhitespace_loop text 0 (replicate (length text) []))"

section \<open>The document model\<close>

text \<open>
  The block types the exporter distinguishes (\<open>BLOCK_TYPE\<close> of draft-js-utils); every other
  type string, among them \<open>unstyled\<close>, is \<open>OTHER_BLOCK\<close> and takes the \<open>default\<close> branch
  of each \<open>switch\<close>.
\<close>

datatype blockType =
    HEADER_ONE | HEADER_TWO | HEADER_THREE | HEADER_FOUR | HEADER_FIVE | HEADER_SIX
  | UNORDERED_LIST_ITEM | ORDERED_LIST_ITEM | CHECKABLE_LIST_ITEM
  | BLOCKQUOTE | CODE_BLOCK | ATOMIC | OTHER_BLOCK string

text \<open>The entity types (\<open>ENTITY_TYPE\<close> of draft-js-utils).\<close>

datatype entityType = LINK | IMAGE | OTHER_ENTITY string

text \<open>
  Modelled from the spec: the inline style labels \<open>INLINE_STYLE\<close> are constants of
  draft-js-utils, which is not under src/. A style set holds labels, which are strings.
\<close>

definition BOLD :: string where
  "BOLD = ''BOLD''"

definition CODE :: string where
  "CODE = ''CODE''"

definition ITALIC :: string where
  "ITALIC = ''ITALIC''"

definition STRIKETHROUGH :: string where
  "STRIKETHROUGH = ''STRIKETHROUGH''"

definition UNDERLINE :: string where
  "UNDERLINE = ''UNDERLINE''"

text \<open>
  A style set is an ordered set: the list of its labels in the order they were added.
  \<open>style.has(l)\<close> and \<open>!!style.get(l)\<close> (for a non-empty label) are membership.
\<close>

type_synonym styleSet = "string list"

record characterMetadata =
  getStyle :: styleSet
  getEntity :: "string option"

record block =
  getKey :: string
  getType :: blockType
  getDepth :: nat
  getText :: string
  getCharacterList :: "characterMetadata list"

record entityInstance =
  entity_getType :: entityType
  entity_getData :: "jsval jsobject"

text \<open>
  What \<open>getEntityRanges\<close> returns: a list of pairs of an entity key (or \<open>null\<close>) and the
  style pieces of that range, each a pair of a text and its style set.
\<close>

type_synonym stylePiece = "string \<times> styleSet"
type_synonym entityPiece = "string option \<times> stylePiece list"

text \<open>
  What one \<open>MarkupGenerator\<close> reads and never writes: the blocks of the content state, the
  checked-state map, and the two external collaborators, the entity registry
  (\<open>Entity.get\<close> of draft-js) and \<open>getEntityRanges\<close> of draft-js-utils, which are
  parameters of the model.
\<close>

record markupGenerator =
  blocks :: "block list"
  checkedStateMap :: "string \<rightharpoonup> bool"
  Entity_get :: "string \<rightharpoonup> entityInstance"
  getEntityRanges :: "string \<Rightarrow> characterMetadata list \<Rightarrow> entityPiece list"

section \<open>Lookup tables\<close>

definition ENTITY_ATTR_MAP :: "(entityType \<times> string jsobject) list" where
  "ENTITY_ATTR_MAP =
     [(LINK, [(''url'', ''href''), (''rel'', ''rel''), (''target'', ''target''),
              (''title'', ''title'')]),
      (IMAGE, [(''src'', ''src''), (''alt'', ''alt''), (''data-original-url'', ''href'')])]"

definition COLOR_STYLE_MAP :: "string jsobject jsobject" where
  "COLOR_STYLE_MAP =
     [(''TEXT_DEFAULT'', [(''color'', ''#878787'')]),
      (''TEXT_WHITE'', [(''color'', ''#fff'')]),
      (''TEXT_BLACK'', [(''color'', ''#000'')]),
      (''TEXT_RED'', [(''color'', ''rgb(255, 0, 0)'')]),
      (''TEXT_ORANGE'', [(''color'', ''rgb(255, 127, 0)'')]),
      (''TEXT_YELLOW'', [(''color'', ''rgb(180, 180, 0)'')]),
      (''TEXT_GREEN'', [(''color'', ''rgb(0, 180, 0)'')]),
      (''TEXT_BLUE'', [(''color'', ''rgb(0, 0, 255)'')]),
      (''TEXT_INDIGO'', [(''color'', ''rgb(75, 0, 130)'')]),
      (''TEXT_VIOLET'', [(''color'', ''rgb(127, 0, 255)'')]),
      (''BACKGROUND_DEFAULT'', [(''backgroundColor'', ''#fff'')]),
      (''BACKGROUND_BLACK'', [(''backgroundColor'', ''#000'')]),
      (''BACKGROUND_RED'', [(''backgroundColor'', ''rgb(255, 0, 0)'')]),
      (''BACKGROUND_ORANGE'', [(''backgroundColor'', ''rgb(255, 127, 0)'')]),
      (''BACKGROUND_YELLOW'', [(''backgroundColor'', ''rgb(180, 180, 0)'')]),
      (''BACKGROUND_GREEN'', [(''backgroundColor'', ''rgb(0, 180, 0)'')]),
      (''BACKGROUND_BLUE'', [(''backgroundColor'', ''rgb(0, 0, 255)'')]),
      (''BACKGROUND_INDIGO'', [(''backgroundColor'', ''rgb(75, 0, 130)'')]),
      (''BACKGROUND_VIOLET'', [(''backgroundColor'', ''rgb(127, 0, 255)'')])]"

text \<open>\<open>obj[k]\<close> on an object of \<open>?string\<close> values: \<open>undefined\<close> when the key is absent.\<close>

definition getProp :: "jsval jsobject \<Rightarrow> string \<Rightarrow> jsval" where
  "getProp obj k = (case map_of obj k of Some v \<Rightarrow> v | None \<Rightarrow> JUndefined)"

text \<open>\<open>Object.assign(target, source)\<close>.\<close>

definition Object_assign :: "'v jsobject \<Rightarrow> 'v jsobject \<Rightarrow> 'v jsobject" where
  "Object_assign target source = foldl (\<lambda>r (k, v). AList.update k v r) target source"

section \<open>Entity data to attributes\<close>

definition dataToAttr :: "entityType \<Rightarrow> entityInstance \<Rightarrow> jsval jsobject" where
  "dataToAttr entityType entity =
     (let attrMap = (case map_of ENTITY_ATTR_MAP entityType of Some m \<Rightarrow> m | None \<Rightarrow> []);
          data = entity_getData entity
      in foldl (\<lambda>attrs dataKey.
                  let dataValue = getProp data dataKey
                  in if hasOwnProperty attrMap dataKey
                     then (case map_of attrMap dataKey of
                             Some attrKey \<Rightarrow> AList.update attrKey dataValue attrs
                           | None \<Rightarrow> attrs)
                     else attrs)
           [] (map fst data))"

text \<open>
  \<open>stringifyAttrs\<close>: the argument \<open>None\<close> is the source's \<open>attrs == null\<close>. A value that
  is not \<open>null\<close> or \<open>undefined\<close> is a string.
\<close>

fun stringifyAttrs :: "jsval jsobject option \<Rightarrow> string" where
  "stringifyAttrs None = []"
| "stringifyAttrs (Some attrs) =
     join [] (foldl (\<lambda>parts attrKey.
                       let attrValue = getProp attrs attrKey
                       in if notNullish attrValue
                          then parts @ ['' '' @ attrKey @ ''=\"'' @
                                        encodeAttr (toString attrValue) @ ''\"'']
                          else parts)
                [] (map fst attrs))"

section \<open>Names of style properties\<close>

definition isUpper :: "char \<Rightarrow> bool" where
  "isUpper c = (let n = (of_char c :: nat) in 65 \<le> n \<and> n \<le> 90)"

definition isLowerOrDigit :: "char \<Rightarrow> bool" where
  "isLowerOrDigit c =
     (let n = (of_char c :: nat) in (97 \<le> n \<and> n \<le> 122) \<or> (48 \<le> n \<and> n \<le> 57))"

text \<open>\<open>toLowerCase\<close> on the code units up to \<open>0xFF\<close>.\<close>

definition toLowerCase :: "char \<Rightarrow> char" where
  "toLowerCase c =
     (let n = (of_char c :: nat)
      in if (65 \<le> n \<and> n \<le> 90) \<or> (192 \<le> n \<and> n \<le> 222 \<and> n \<noteq> 215)
         then char_of (n + 32) else c)"

text \<open>
  \<open>.replace(/([a-z\d])([A-Z])/g, '$1' + sep + '$2')\<close>: the matches are found from left to
  right and do not overlap.
\<close>

fun replaceLowerUpper :: "string \<Rightarrow> string \<Rightarrow> string" where
  "replaceLowerUpper sep (a # b # rest) =
     (if isLowerOrDigit a \<and> isUpper b then a # sep @ b # replaceLowerUpper sep rest
      else a # replaceLowerUpper sep (b # rest))"
| "replaceLowerUpper sep s = s"

text \<open>
  \<open>.replace(/([A-Z]+)([A-Z][a-z\d]+)/g, '$1' + sep + '$2')\<close>: a match starts at an upper-case
  letter whose run of upper-case letters has at least two letters and is followed by a
  lower-case letter or digit; the first group is the run without its last letter, the
  second is that letter and the lower-case letters and digits after it.
\<close>

function replaceUpperRun :: "string \<Rightarrow> string \<Rightarrow> string" where
  "replaceUpperRun sep [] = []"
| "replaceUpperRun sep (c # cs) =
     (if isUpper c then
        (let run = takeWhile isUpper (c # cs); rest = dropWhile isUpper (c # cs)
         in if 2 \<le> length run \<and> rest \<noteq> [] \<and> isLowerOrDigit (hd rest)
            then butlast run @ sep @ [last run] @ takeWhile isLowerOrDigit rest @
                 replaceUpperRun sep (dropWhile isLowerOrDigit rest)
            else run @ replaceUpperRun sep rest)
      else c # replaceUpperRun sep cs)"
  by pat_completeness auto
termination
proof (relation "measure (\<lambda>(sep, s). length s)")
  fix sep :: string and c :: char and cs run rest :: string
  assume up: "isUpper c" and rest: "rest = dropWhile isUpper (c # cs)"
  have a: "length rest \<le> length cs"
    using up rest by (simp add: length_dropWhile_le)
  show "((sep, rest), sep, c # cs) \<in> measure (\<lambda>(sep, s). length s)"
    using a by simp
  have "length (dropWhile isLowerOrDigit rest) \<le> length rest"
    by (rule length_dropWhile_le)
  then show "((sep, dropWhile isLowerOrDigit rest), sep, c # cs)
      \<in> measure (\<lambda>(sep, s). length s)"
    using a by simp
qed simp_all

declare replaceUpperRun.simps [simp del]

text \<open>
  \<open>decamelize\<close>: the separator \<open>None\<close> is \<open>undefined\<close>. The argument is a string by its
  type, so the \<open>TypeError\<close> of the source's first line has no input here.
\<close>

definition decamelize :: "string \<Rightarrow> string option \<Rightarrow> string" where
  "decamelize str sep =
     (let sep = (case sep of None \<Rightarrow> ''_'' | Some s \<Rightarrow> s)
      in map toLowerCase (replaceUpperRun sep (replaceLowerUpper sep str)))"

section \<open>Tags of a block\<close>

fun getTags :: "blockType \<Rightarrow> string list" where
  "getTags HEADER_ONE = [''h1'']"
| "getTags HEADER_TWO = [''h2'']"
| "getTags HEADER_THREE = [''h3'']"
| "getTags HEADER_FOUR = [''h4'']"
| "getTags HEADER_FIVE = [''h5'']"
| "getTags HEADER_SIX = [''h6'']"
| "getTags UNORDERED_LIST_ITEM = [''li'']"
| "getTags ORDERED_LIST_ITEM = [''li'']"
| "getTags CHECKABLE_LIST_ITEM = [''li'']"
| "getTags BLOCKQUOTE = [''blockquote'']"
| "getTags CODE_BLOCK = [''pre'', ''code'']"
| "getTags ATOMIC = [''figure'']"
| "getTags (OTHER_BLOCK t) = [''div'']"

fun getWrapperTag :: "blockType \<Rightarrow> string option" where
  "getWrapperTag UNORDERED_LIST_ITEM = Some ''ul''"
| "getWrapperTag CHECKABLE_LIST_ITEM = Some ''ul''"
| "getWrapperTag ORDERED_LIST_ITEM = Some ''ol''"
| "getWrapperTag t = None"

fun canHaveDepth :: "blockType \<Rightarrow> bool" where
  "canHaveDepth UNORDERED_LIST_ITEM = True"
| "canHaveDepth ORDERED_LIST_ITEM = True"
| "canHaveDepth CHECKABLE_LIST_ITEM = True"
| "canHaveDepth t = False"

section \<open>Rendering the content of a block\<close>

text \<open>
  The inner arrow function of \<open>renderBlockContent\<close>: one style piece \<open>[text, style]\<close> of a
  block, decorated step by step as the source reassigns \<open>content\<close>.
\<close>

definition renderStylePiece :: "(string \<rightharpoonup> bool) \<Rightarrow> block \<Rightarrow> stylePiece \<Rightarrow> string" where
  "renderStylePiece checked block piece =
     (let blockType = getType block;
          text = fst piece;
          style = snd piece;
          content = encodeContent text;
          includedLabels = filter (\<lambda>label. label \<in> set style) (map fst COLOR_STYLE_MAP);
          content =
            (if 0 < length includedLabels then
               (let styles = foldl (\<lambda>result label.
                                      (case map_of COLOR_STYLE_MAP label of
                                         Some props \<Rightarrow> Object_assign result props
                                       | None \<Rightarrow> result))
                               [] includedLabels;
                    stringifyStyles =
                      join '' '' (map (\<lambda>prop. decamelize prop (Some ''-'') @ '': '' @
                                          (case map_of styles prop of Some v \<Rightarrow> v
                                           | None \<Rightarrow> ''undefined'') @ '';'')
                                     (map fst styles))
                in ''<span style=\"'' @ stringifyStyles @ ''\">'' @ content @ ''</span>'')
             else content);
          content = (if BOLD \<in> set style
                     then ''<strong>'' @ content @ ''</strong>'' else content);
          content = (if UNDERLINE \<in> set style
                     then ''<ins>'' @ content @ ''</ins>'' else content);
          content = (if ITALIC \<in> set style
                     then ''<em>'' @ content @ ''</em>'' else content);
          content = (if STRIKETHROUGH \<in> set style
                     then ''<del>'' @ content @ ''</del>'' else content);
          content = (if CODE \<in> set style
                     then (if blockType = CODE_BLOCK then content
                           else ''<code>'' @ content @ ''</code>'')
                     else content);
          content = (if blockType = CHECKABLE_LIST_ITEM
                     then (let isChecked = checked (getKey block)
                           in ''<input type=\"checkbox\" '' @
                              (if isChecked = Some True then ''checked '' else []) @
                              ''/>'' @ content)
                     else content)
      in content)"

text \<open>
  The outer arrow function of \<open>renderBlockContent\<close>: one entity piece
  \<open>[entityKey, stylePieces]\<close>. An entity key is looked up when it is truthy, that is,
  neither \<open>null\<close> nor the empty string.
\<close>

definition renderEntityPiece :: "markupGenerator \<Rightarrow> block \<Rightarrow> entityPiece \<Rightarrow> string" where
  "renderEntityPiece gen block piece =
     (let entityKey = fst piece;
          stylePieces = snd piece;
          content = join [] (map (renderStylePiece (checkedStateMap gen) block) stylePieces);
          entity = (case entityKey of
                      None \<Rightarrow> None
                    | Some k \<Rightarrow> if k \<noteq> [] then Entity_get gen k else None);
          entityType = map_option entity_getType entity
      in case entity of
           None \<Rightarrow> content
         | Some e \<Rightarrow>
             if entityType = Some LINK then
               (let attrs = dataToAttr LINK e;
                    strAttrs = stringifyAttrs (Some attrs)
                in ''<a'' @ strAttrs @ ''>'' @ content @ ''</a>'')
             else if entityType = Some IMAGE then
               (let attrs = dataToAttr IMAGE e;
                    strAttrs = stringifyAttrs (Some attrs)
                in ''<a href=\"'' @ toString (getProp attrs ''href'') @
                   ''\"><img src=\"'' @ toString (getProp attrs ''src'') @
                   ''\" alt=\"'' @ toString (getProp attrs ''alt'') @ ''\" /></a>'')
             else content)"

definition renderBlockContent :: "markupGenerator \<Rightarrow> block \<Rightarrow> string" where
  "renderBlockContent gen block =
     (let blockType = getType block;
          text = getText block
      in if text = [] then BREAK
         else (let text = preserveWhitespace text;
                   charMetaList = getCharacterList block;
                   entityPieces = getEntityRanges gen text charMetaList
               in join [] (map (renderEntityPiece gen block) entityPieces)))"

section \<open>The traversal state and its steps\<close>

text \<open>
  The exceptions the traversal can raise: \<open>String.prototype.repeat\<close> with a negative
  count, and a method call on the \<open>undefined\<close> that an index past the last block reads.
\<close>

datatype error = RangeError | TypeError

text \<open>The fields of \<open>MarkupGenerator\<close> that \<open>generate\<close> writes.\<close>

record state =
  outputArray :: "string list"
  currentBlock :: nat
  indentLevel :: int
  wrapperTag :: "string option"

text \<open>\<open>if (tag)\<close> on a \<open>?string\<close>: false for \<open>null\<close> and for the empty string.\<close>

fun truthy :: "string option \<Rightarrow> bool" where
  "truthy None = False"
| "truthy (Some t) = (t \<noteq> [])"

text \<open>\<open>this.blocks[i]\<close>: \<open>undefined\<close> past the end.\<close>

definition blockAt :: "markupGenerator \<Rightarrow> nat \<Rightarrow> block option" where
  "blockAt gen i = (if i < length (blocks gen) then Some (blocks gen ! i) else None)"

definition push :: "string \<Rightarrow> state \<Rightarrow> state" where
  "push fragment st = st\<lparr>outputArray := outputArray st @ [fragment]\<rparr>"

definition indent :: "state \<Rightarrow> error + state" where
  "indent st =
     (if indentLevel st < 0 then Inl RangeError
      else Inr (push (concat (replicate (nat (indentLevel st)) INDENT)) st))"

definition openWrapperTag :: "string \<Rightarrow> state \<Rightarrow> error + state" where
  "openWrapperTag tag st =
     (case indent (st\<lparr>wrapperTag := Some tag\<rparr>) of
        Inl e \<Rightarrow> Inl e
      | Inr st1 \<Rightarrow>
          (let st2 = push (''<'' @ tag @ ''>'' @ [NEWLINE]) st1
           in Inr (st2\<lparr>indentLevel := indentLevel st2 + 1\<rparr>)))"

definition closeWrapperTag :: "state \<Rightarrow> error + state" where
  "closeWrapperTag st =
     (if truthy (wrapperTag st) then
        (case indent (st\<lparr>indentLevel := indentLevel st - 1\<rparr>) of
           Inl e \<Rightarrow> Inl e
         | Inr st1 \<Rightarrow>
             (let st2 = push (''</'' @ the (wrapperTag st1) @ ''>'' @ [NEWLINE]) st1
              in Inr (st2\<lparr>wrapperTag := None\<rparr>)))
      else Inr st)"

definition writeStartTag :: "blockType \<Rightarrow> state \<Rightarrow> state" where
  "writeStartTag blockType st =
     foldl (\<lambda>s tag. push (''<'' @ tag @ ''>'') s) st (getTags blockType)"

definition writeEndTag :: "blockType \<Rightarrow> state \<Rightarrow> state" where
  "writeEndTag blockType st =
     (let tags = getTags blockType
      in if length tags = 1 then push (''</'' @ tags ! 0 @ ''>'' @ [NEWLINE]) st
         else (let out = foldl (\<lambda>out tag. (''</'' @ tag @ ''>'') # out) [] tags
               in push (join [] out @ [NEWLINE]) st))"

definition getNextBlock :: "markupGenerator \<Rightarrow> state \<Rightarrow> block option" where
  "getNextBlock gen st = blockAt gen (currentBlock st + 1)"

text \<open>
  The first statement of \<open>processBlock\<close> after the block is read: the wrapper the block
  needs against the wrapper that is open.
\<close>

definition switchWrapperTag :: "string option \<Rightarrow> state \<Rightarrow> error + state" where
  "switchWrapperTag newWrapperTag st =
     (if wrapperTag st \<noteq> newWrapperTag then
        (case (if truthy (wrapperTag st) then closeWrapperTag st else Inr st) of
           Inl e \<Rightarrow> Inl e
         | Inr st1 \<Rightarrow>
             if truthy newWrapperTag then openWrapperTag (the newWrapperTag) st1
             else Inr st1)
      else Inr st)"

section \<open>The traversal\<close>

text \<open>
  \<open>processBlock\<close> and \<open>processBlocksAtDepth\<close> call each other; the cursor
  \<open>currentBlock\<close> only grows, which is why they terminate.
\<close>

function processBlock :: "markupGenerator \<Rightarrow> state \<Rightarrow> error + state"
  and processBlocksAtDepth :: "markupGenerator \<Rightarrow> nat \<Rightarrow> state \<Rightarrow> error + state" where
  "processBlock gen st =
     (case blockAt gen (currentBlock st) of
        None \<Rightarrow> Inl TypeError
      | Some block \<Rightarrow>
          (let blockType = getType block;
               newWrapperTag = getWrapperTag blockType
           in case switchWrapperTag newWrapperTag st of
                Inl e \<Rightarrow> Inl e
              | Inr st1 \<Rightarrow>
                  (case indent st1 of
                     Inl e \<Rightarrow> Inl e
                   | Inr st2 \<Rightarrow>
                       (let st3 = writeStartTag blockType st2;
                            st4 = push (renderBlockContent gen block) st3;
                            nextBlock = getNextBlock gen st4
                        in if canHaveDepth blockType \<and> nextBlock \<noteq> None \<and>
                              getDepth (the nextBlock) = getDepth block + 1
                           then
                             (let st5 = push [NEWLINE] st4;
                                  thisWrapperTag = wrapperTag st5;
                                  st6 = st5\<lparr>wrapperTag := None,
                                            indentLevel := indentLevel st5 + 1,
                                            currentBlock := currentBlock st5 + 1\<rparr>
                              in case processBlocksAtDepth gen (getDepth (the nextBlock)) st6 of
                                   Inl e \<Rightarrow> Inl e
                                 | Inr st7 \<Rightarrow>
                                     (case indent (st7\<lparr>wrapperTag := thisWrapperTag,
                                                        indentLevel := indentLevel st7 - 1\<rparr>) of
                                        Inl e \<Rightarrow> Inl e
                                      | Inr st8 \<Rightarrow> Inr (writeEndTag blockType st8)))
                           else Inr (writeEndTag blockType
                                       (st4\<lparr>currentBlock := currentBlock st4 + 1\<rparr>))))))"
| "processBlocksAtDepth gen depth st =
     (case blockAt gen (currentBlock st) of
        None \<Rightarrow> closeWrapperTag st
      | Some block \<Rightarrow>
          if getDepth block = depth then
            (case processBlock gen st of
               Inl e \<Rightarrow> Inl e
             | Inr st' \<Rightarrow> processBlocksAtDepth gen depth st')
          else closeWrapperTag st)"
  by pat_completeness auto

text \<open>The \<open>while\<close> loop of \<open>generate\<close>; \<open>totalBlocks\<close> is the number of blocks.\<close>

function generate_loop :: "markupGenerator \<Rightarrow> state \<Rightarrow> error + state" where
  "generate_loop gen st =
     (if currentBlock st < length (blocks gen) then
        (case processBlock gen st of
           Inl e \<Rightarrow> Inl e
         | Inr st' \<Rightarrow> generate_loop gen st')
      else Inr st)"
  by pat_completeness auto

text \<open>The statements of \<open>generate\<close> before its \<open>return\<close>: the state they leave.\<close>

definition generate_run :: "markupGenerator \<Rightarrow> error + state" where
  "generate_run gen =
     (case generate_loop gen
             \<lparr>outputArray = [], currentBlock = 0, indentLevel = 0, wrapperTag = None\<rparr> of
        Inl e \<Rightarrow> Inl e
      | Inr st \<Rightarrow> closeWrapperTag st)"

text \<open>
  \<open>String.prototype.trim\<close> removes white space and line terminators from both ends; among
  the code units up to \<open>0xFF\<close> these are tab, line feed, vertical tab, form feed, carriage
  return, space and the non-breaking space.
\<close>

definition isTrimmed :: "char \<Rightarrow> bool" where
  "isTrimmed c = (c \<in> {CHR 0x09, CHR 0x0A, CHR 0x0B, CHR 0x0C, CHR 0x0D, CHR 0x20, CHR 0xA0})"

definition trim :: "string \<Rightarrow> string" where
  "trim s = rev (dropWhile isTrimmed (rev (dropWhile isTrimmed s)))"

definition generate :: "markupGenerator \<Rightarrow> error + string" where
  "generate gen =
     (case generate_run gen of
        Inl e \<Rightarrow> Inl e
      | Inr st \<Rightarrow> Inr (trim (join [] (outputArray st))))"

text \<open>
  The exported function; the entity registry and \<open>getEntityRanges\<close>, which the source
  imports, are the two further arguments.
\<close>

definition stateToHTML ::
  "block list \<Rightarrow> (string \<rightharpoonup> bool) \<Rightarrow> (string \<rightharpoonup> entityInstance) \<Rightarrow>
   (string \<Rightarrow> characterMetadata list \<Rightarrow> entityPiece list) \<Rightarrow> error + string" where
  "stateToHTML content checked registry ranges =
     generate \<lparr>blocks = content, checkedStateMap = checked, Entity_get = registry,
               getEntityRanges = ranges\<rparr>"

section \<open>The variant with numbered legacy styles\<close>

text \<open>
  The second source file is the same engine with another table of legacy style labels:
  the labels \<open>COLOR\<close>\<open>i\<close> and \<open>BACKGROUND_COLOR\<close>\<open>i\<close> for the 35 old colours, added to the
  size labels. A font size, a number in the source, is held as the string that the
  template literal prints. Only the decoration of a style piece is given for this file;
  its \<open>writeStartTag\<close> also puts a \<open>text-align\<close> style attribute in the start tag of
  the three alignment block types, and the traversal of the blocks above is the one of
  the first file.
\<close>

definition OLD_COLORS :: "string list" where
  "OLD_COLORS =
     [''rgb(0, 0, 0)'', ''rgb(230, 0, 0)'', ''rgb(255, 153, 0)'', ''rgb(255, 255, 0)'',
      ''rgb(0, 138, 0)'', ''rgb(0, 102, 204)'', ''rgb(153, 51, 255)'', ''rgb(255, 255, 255)'',
      ''rgb(250, 204, 204)'', ''rgb(255, 235, 204)'', ''rgb(255, 255, 204)'',
      ''rgb(204, 232, 204)'', ''rgb(204, 224, 245)'', ''rgb(235, 214, 255)'',
      ''rgb(187, 187, 187)'', ''rgb(240, 102, 102)'', ''rgb(255, 194, 102)'',
      ''rgb(255, 255, 102)'', ''rgb(102, 185, 102)'', ''rgb(102, 163, 224)'',
      ''rgb(194, 133, 255)'', ''rgb(136, 136, 136)'', ''rgb(161, 0, 0)'', ''rgb(178, 107, 0)'',
      ''rgb(178, 178, 0)'', ''rgb(0, 97, 0)'', ''rgb(0, 71, 178)'', ''rgb(107, 36, 178)'',
      ''rgb(68, 68, 68)'', ''rgb(92, 0, 0)'', ''rgb(102, 61, 0)'', ''rgb(102, 102, 0)'',
      ''rgb(0, 55, 0)'', ''rgb(0, 41, 102)'', ''rgb(61, 20, 10)'']"

definition OLD_INLINE_STYLES_SIZE :: "string jsobject jsobject" where
  "OLD_INLINE_STYLES_SIZE =
     [(''SIZE_NORMAL'', [(''fontSize'', ''13'')]),
      (''SIZE_SMALLER'', [(''fontSize'', ''10'')]),
      (''SIZE_LARGER'', [(''fontSize'', ''24'')]),
      (''SIZE_HUGE'', [(''fontSize'', ''32'')])]"

text \<open>The decimal digits of an array index, as \<open>`${i}`\<close> prints them.\<close>

fun showNat :: "nat \<Rightarrow> string" where
  "showNat n =
     (if n < 10 then [char_of (48 + n)]
      else showNat (n div 10) @ [char_of (48 + n mod 10)])"

declare showNat.simps [simp del]

definition OLD_INLINE_STYLES :: "string jsobject jsobject" where
  "OLD_INLINE_STYLES =
     foldl (\<lambda>result (color, i).
              AList.update (''BACKGROUND_COLOR'' @ showNat i) [(''backgroundColor'', color)]
                (AList.update (''COLOR'' @ showNat i) [(''color'', color)] result))
       OLD_INLINE_STYLES_SIZE (zip OLD_COLORS [0..<length OLD_COLORS])"

definition renderStylePiece_old :: "(string \<rightharpoonup> bool) \<Rightarrow> block \<Rightarrow> stylePiece \<Rightarrow> string" where
  "renderStylePiece_old checked block piece =
     (let blockType = getType block;
          text = fst piece;
          style = snd piece;
          content = encodeContent text;
          oldStyles = filter (\<lambda>style. style \<in> set (map fst OLD_INLINE_STYLES)) style;
          content =
            (if 0 < length oldStyles then
               (let styles = foldl (\<lambda>result style.
                                      foldl (\<lambda>r prop.
                                               (case map_of (the (map_of OLD_INLINE_STYLES style)) prop of
                                                  Some v \<Rightarrow> AList.update prop v r
                                                | None \<Rightarrow> r))
                                        result (map fst (the (map_of OLD_INLINE_STYLES style))))
                               [] oldStyles;
                    stringifyStyles =
                      join '' '' (map (\<lambda>prop.
                                         let v = (case map_of styles prop of Some v \<Rightarrow> v
                                                  | None \<Rightarrow> ''undefined'');
                                             val = (if prop = ''fontSize'' then v @ ''px'' else v)
                                         in decamelize prop (Some ''-'') @ '': '' @ val @ '';'')
                                     (map fst styles))
                in ''<span style=\"'' @ stringifyStyles @ ''\">'' @ content @ ''</span>'')
             else content);
          content = (if BOLD \<in> set style
                     then ''<strong>'' @ content @ ''</strong>'' else content);
          content = (if UNDERLINE \<in> set style
                     then ''<ins>'' @ content @ ''</ins>'' else content);
          content = (if ITALIC \<in> set style
                     then ''<em>'' @ content @ ''</em>'' else content);
          content = (if STRIKETHROUGH \<in> set style
                     then ''<del>'' @ content @ ''</del>'' else content);
          content = (if CODE \<in> set style
                     then (if blockType = CODE_BLOCK then content
                           else ''<code>'' @ content @ ''</code>'')
                     else content);
          content = (if blockType = CHECKABLE_LIST_ITEM
                     then (let isChecked = checked (getKey block)
                           in ''<input type=\"checkbox\" '' @
                              (if isChecked = Some True then ''checked '' else []) @
                              ''/>'' @ content)
                     else content)
      in content)"

section \<open>Notions the properties are stated with\<close>

text \<open>
  What the content encoding puts for one character: the named entity for an ampersand, a
  less-than, a greater-than and the non-breaking space, the line-break element followed
  by the newline for a newline, the character itself otherwise.
\<close>

definition encodeChar :: "char \<Rightarrow> string" where
  "encodeChar c =
     (if c = CHR ''&'' then ''&amp;''
      else if c = CHR ''<'' then ''&lt;''
      else if c = CHR ''>'' then ''&gt;''
      else if c = NBSP then ''&nbsp;''
      else if c = NEWLINE then ''<br/>'' @ [NEWLINE]
      else [c])"

text \<open>
  Decoding the four named entities the content encoding produces; every other character
  stays.
\<close>

fun decodeEntities :: "string \<Rightarrow> string" where
  "decodeEntities [] = []"
| "decodeEntities (c # cs) =
     (if c = CHR ''&'' \<and> take 4 cs = ''amp;'' then CHR ''&'' # decodeEntities (drop 4 cs)
      else if c = CHR ''&'' \<and> take 3 cs = ''lt;'' then CHR ''<'' # decodeEntities (drop 3 cs)
      else if c = CHR ''&'' \<and> take 3 cs = ''gt;'' then CHR ''>'' # decodeEntities (drop 3 cs)
      else if c = CHR ''&'' \<and> take 5 cs = ''nbsp;'' then NBSP # decodeEntities (drop 5 cs)
      else c # decodeEntities cs)"

text \<open>The attribute-value rule for one character.\<close>

definition encodeAttrChar :: "char \<Rightarrow> string" where
  "encodeAttrChar c =
     (if c = CHR ''&'' then ''&amp;''
      else if c = CHR ''<'' then ''&lt;''
      else if c = CHR ''>'' then ''&gt;''
      else if c = DQUOTE then ''&quot;''
      else [c])"

text \<open>A tag around a content, put or not.\<close>

definition wrapIf :: "bool \<Rightarrow> string \<Rightarrow> string \<Rightarrow> string" where
  "wrapIf b tag content = (if b then ''<'' @ tag @ ''>'' @ content @ ''</'' @ tag @ ''>'' else content)"

text \<open>
  What one data field of a link entity adds to the anchor tag: the attribute the field
  maps to, with its escaped value, when the field is mapped and its value is a string;
  nothing otherwise.
\<close>

definition linkAttribute :: "string \<times> jsval \<Rightarrow> string" where
  "linkAttribute field =
     (case map_of [(''url'', ''href''), (''rel'', ''rel''), (''target'', ''target''),
                   (''title'', ''title'')] (fst field) of
        None \<Rightarrow> []
      | Some attrKey \<Rightarrow>
          (case snd field of
             JStr s \<Rightarrow> '' '' @ attrKey @ ''=\"'' @ encodeAttr s @ ''\"''
           | JNull \<Rightarrow> []
           | JUndefined \<Rightarrow> []))"

text \<open>
  The wrapper fragments of an output array, read from left to right against the stack
  of the wrappers that are open: an opening pushes its tag, a closing must meet its own
  tag on top. The result is the stack that remains, or \<open>None\<close> when a closing has no
  matching opening.
\<close>

fun wrapperScan :: "string list \<Rightarrow> string list \<Rightarrow> string list option" where
  "wrapperScan stack [] = Some stack"
| "wrapperScan stack (f # fs) =
     (if f = ''<ul>'' @ [NEWLINE] then wrapperScan (''ul'' # stack) fs
      else if f = ''<ol>'' @ [NEWLINE] then wrapperScan (''ol'' # stack) fs
      else if f = ''</ul>'' @ [NEWLINE] then
        (case stack of t # rest \<Rightarrow> if t = ''ul'' then wrapperScan rest fs else None
         | [] \<Rightarrow> None)
      else if f = ''</ol>'' @ [NEWLINE] then
        (case stack of t # rest \<Rightarrow> if t = ''ol'' then wrapperScan rest fs else None
         | [] \<Rightarrow> None)
      else wrapperScan stack fs)"

text \<open>
  A fragment that cannot be taken for a wrapper fragment: it does not begin with
  \<open><u\<close>, \<open><o\<close> or \<open></\<close>, and it is not the single character \<open><\<close>.
\<close>

fun noWrapperStart :: "string \<Rightarrow> bool" where
  "noWrapperStart [] = True"
| "noWrapperStart [c] = (c \<noteq> CHR ''<'')"
| "noWrapperStart (c # d # cs) =
     (c \<noteq> CHR ''<'' \<or> (d \<noteq> CHR ''u'' \<and> d \<noteq> CHR ''o'' \<and> d \<noteq> CHR ''/''))"

text \<open>
  Modelled from the spec: \<open>getEntityRanges\<close> of draft-js-utils is not under src/. The
  characters of a text, each with its metadata, are grouped into the runs of consecutive
  characters that carry the same entity key, and each such run into the runs of
  consecutive characters whose style sets are equal. It stands for the collaborator in
  the concrete documents below; the functions above take the collaborator as a parameter.
\<close>

fun groupRuns :: "('a \<Rightarrow> 'k) \<Rightarrow> 'a list \<Rightarrow> ('k \<times> 'a list) list" where
  "groupRuns f [] = []"
| "groupRuns f (x # xs) =
     (case groupRuns f xs of
        [] \<Rightarrow> [(f x, [x])]
      | (k, ys) # rest \<Rightarrow> if f x = k then (k, x # ys) # rest else (f x, [x]) # (k, ys) # rest)"

definition groupedEntityRanges :: "string \<Rightarrow> characterMetadata list \<Rightarrow> entityPiece list" where
  "groupedEntityRanges text charMetaList =
     map (\<lambda>(entityKey, chars).
            (entityKey, map (\<lambda>(style, cs). (map fst cs, style))
                          (groupRuns (\<lambda>(c, meta). getStyle meta) chars)))
       (groupRuns (\<lambda>(c, meta). getEntity meta) (zip text charMetaList))"

text \<open>
  The wrapper field only ever holds nothing or one of the two list containers; the
  stack that an open wrapper stands for; and the indentation below the open wrapper.
\<close>

definition listWrapper :: "string option \<Rightarrow> bool" where
  "listWrapper w = (w = None \<or> w = Some ''ul'' \<or> w = Some ''ol'')"

fun openStack :: "string option \<Rightarrow> string list" where
  "openStack None = []"
| "openStack (Some t) = [t]"

definition baseIndent :: "state \<Rightarrow> int" where
  "baseIndent st = indentLevel st - (if wrapperTag st = None then 0 else 1)"

text \<open>
  A stretch of the traversal from one state to a later one is balanced when it only
  appends to the output, the appended fragments take the stack of the wrapper open before
  to the stack of the wrapper open after, whatever lies below, and the indentation below
  the wrapper is the same.
\<close>

definition balancedStep :: "state \<Rightarrow> state \<Rightarrow> bool" where
  "balancedStep st st' =
     ((\<exists>new. outputArray st' = outputArray st @ new \<and>
            (\<forall>S. wrapperScan (openStack (wrapperTag st) @ S) new =
                   Some (openStack (wrapperTag st') @ S))) \<and>
      listWrapper (wrapperTag st') \<and> baseIndent st' = baseIndent st)"

section \<open>Example documents\<close>

definition plainChar :: characterMetadata where
  "plainChar = \<lparr>getStyle = [], getEntity = None\<rparr>"

text \<open>An unordered list: an item, an item nested in it, and a second item.\<close>

definition nestedList :: "block list" where
  "nestedList =
     [\<lparr>getKey = ''a'', getType = UNORDERED_LIST_ITEM, getDepth = 0, getText = ''one'',
       getCharacterList = replicate 3 plainChar\<rparr>,
      \<lparr>getKey = ''b'', getType = UNORDERED_LIST_ITEM, getDepth = 1, getText = ''two'',
       getCharacterList = replicate 3 plainChar\<rparr>,
      \<lparr>getKey = ''c'', getType = UNORDERED_LIST_ITEM, getDepth = 0, getText = ''three'',
       getCharacterList = replicate 5 plainChar\<rparr>]"

text \<open>A generator for a list of blocks, with no checked items and no entities.\<close>

definition plainGenerator :: "block list \<Rightarrow> markupGenerator" where
  "plainGenerator bs =
     \<lparr>blocks = bs, checkedStateMap = Map.empty, Entity_get = Map.empty,
      getEntityRanges = groupedEntityRanges\<rparr>"

text \<open>A checkable list item with no text, whose key is checked.\<close>

definition emptyCheckable :: block where
  "emptyCheckable =
     \<lparr>getKey = ''k'', getType = CHECKABLE_LIST_ITEM, getDepth = 0, getText = [],
      getCharacterList = []\<rparr>"

definition checkedGenerator :: markupGenerator where
  "checkedGenerator =
     \<lparr>blocks = [emptyCheckable], checkedStateMap = [''k'' \<mapsto> True], Entity_get = Map.empty,
      getEntityRanges = groupedEntityRanges\<rparr>"

text \<open>The link entity of the specification: a URL and a \<open>rel\<close> that is \<open>null\<close>.\<close>

definition linkEntity :: entityInstance where
  "linkEntity =
     \<lparr>entity_getType = LINK,
      entity_getData = [(''url'', JStr ''https://x''), (''rel'', JNull)]\<rparr>"

text \<open>An image entity whose source holds a double quote, and one with no data at all.\<close>

definition quoteImage :: entityInstance where
  "quoteImage =
     \<lparr>entity_getType = IMAGE,
      entity_getData = [(''src'', JStr ''a\"b''), (''alt'', JStr ''x''),
                        (''data-original-url'', JStr ''u'')]\<rparr>"

definition bareImage :: entityInstance where
  "bareImage = \<lparr>entity_getType = IMAGE, entity_getData = []\<rparr>"

text \<open>A paragraph of one character that carries the entity with key \<open>1\<close>.\<close>

definition entityParagraph :: block where
  "entityParagraph =
     \<lparr>getKey = ''p'', getType = OTHER_BLOCK ''unstyled'', getDepth = 0, getText = ''x'',
      getCharacterList = [\<lparr>getStyle = [], getEntity = Some ''1''\<rparr>]\<rparr>"

definition entityGenerator :: "entityInstance \<Rightarrow> markupGenerator" where
  "entityGenerator e =
     \<lparr>blocks = [entityParagraph], checkedStateMap = Map.empty, Entity_get = [''1'' \<mapsto> e],
      getEntityRanges = groupedEntityRanges\<rparr>"

section \<open>Termination of the traversal\<close>

lemma currentBlock_push [simp]: "currentBlock (push f st) = currentBlock st"
  by (simp add: push_def)

lemma currentBlock_indent: "indent st = Inr st' \<Longrightarrow> currentBlock st' = currentBlock st"
  by (auto simp: indent_def split: if_splits)

lemma currentBlock_openWrapperTag:
  "openWrapperTag tag st = Inr st' \<Longrightarrow> currentBlock st' = currentBlock st"
  by (auto simp: openWrapperTag_def Let_def split: sum.splits dest!: currentBlock_indent)

lemma currentBlock_closeWrapperTag:
  "closeWrapperTag st = Inr st' \<Longrightarrow> currentBlock st' = currentBlock st"
  by (auto simp: closeWrapperTag_def Let_def split: sum.splits if_splits
      dest!: currentBlock_indent)

lemma currentBlock_switchWrapperTag:
  "switchWrapperTag new st = Inr st' \<Longrightarrow> currentBlock st' = currentBlock st"
  by (auto simp: switchWrapperTag_def split: sum.splits if_splits
      dest!: currentBlock_openWrapperTag currentBlock_closeWrapperTag)

lemma currentBlock_writeStartTag [simp]: "currentBlock (writeStartTag t st) = currentBlock st"
proof -
  have "currentBlock (foldl (\<lambda>s tag. push (''<'' @ tag @ ''>'') s) st tags) = currentBlock st"
    for tags
    by (induction tags arbitrary: st) simp_all
  then show ?thesis by (simp add: writeStartTag_def)
qed

lemma currentBlock_writeEndTag [simp]: "currentBlock (writeEndTag t st) = currentBlock st"
  by (simp add: writeEndTag_def Let_def)

text \<open>
  Before the traversal is known to end, on the domain of the two functions: a block that
  is processed moves the cursor forward, a run of blocks at one depth never moves it back.
\<close>

lemma cursor_partial:
  "processBlock_processBlocksAtDepth_dom (Inl (gen, st)) \<Longrightarrow>
      (\<forall>st'. processBlock gen st = Inr st' \<longrightarrow> currentBlock st < currentBlock st')"
  "processBlock_processBlocksAtDepth_dom (Inr (gen2, d, st2)) \<Longrightarrow>
      (\<forall>st'. processBlocksAtDepth gen2 d st2 = Inr st' \<longrightarrow> currentBlock st2 \<le> currentBlock st')"
proof (induct rule: processBlock_processBlocksAtDepth.pinduct)
  case (1 gen st)
  show ?case
  proof (intro allI impI)
    fix st' assume r: "processBlock gen st = Inr st'"
    from r obtain block where b: "blockAt gen (currentBlock st) = Some block"
      by (auto simp: processBlock.psimps[OF "1.hyps"(1)] split: option.splits)
    define blockType where "blockType = getType block"
    from r b obtain st1 where s1: "switchWrapperTag (getWrapperTag blockType) st = Inr st1"
      by (auto simp: processBlock.psimps[OF "1.hyps"(1)] Let_def blockType_def split: sum.splits)
    from r b s1 obtain st2 where s2: "indent st1 = Inr st2"
      by (auto simp: processBlock.psimps[OF "1.hyps"(1)] Let_def blockType_def split: sum.splits)
    define st4 where "st4 = push (renderBlockContent gen block) (writeStartTag blockType st2)"
    define nest where "nest \<longleftrightarrow> canHaveDepth blockType \<and> getNextBlock gen st4 \<noteq> None \<and>
                  getDepth (the (getNextBlock gen st4)) = getDepth block + 1"
    define st6 where "st6 = (push [NEWLINE] st4)\<lparr>wrapperTag := None,
          indentLevel := indentLevel (push [NEWLINE] st4) + 1,
          currentBlock := currentBlock (push [NEWLINE] st4) + 1\<rparr>"
    have unfold: "processBlock gen st =
        (if nest then
           (case processBlocksAtDepth gen (getDepth (the (getNextBlock gen st4))) st6 of
              Inl e \<Rightarrow> Inl e
            | Inr st7 \<Rightarrow>
               (case indent (st7\<lparr>wrapperTag := wrapperTag (push [NEWLINE] st4),
                                  indentLevel := indentLevel st7 - 1\<rparr>) of
                  Inl e \<Rightarrow> Inl e
                | Inr st8 \<Rightarrow> Inr (writeEndTag blockType st8)))
         else Inr (writeEndTag blockType (st4\<lparr>currentBlock := currentBlock st4 + 1\<rparr>)))"
      unfolding processBlock.psimps[OF "1.hyps"(1)] Let_def nest_def st6_def st4_def blockType_def
      by (simp only: b s1[unfolded blockType_def] s2 option.case sum.case)
    have c4: "currentBlock st4 = currentBlock st"
      using currentBlock_switchWrapperTag[OF s1] currentBlock_indent[OF s2]
      by (simp add: st4_def)
    show "currentBlock st < currentBlock st'"
    proof (cases nest)
      case False
      then have "st' = writeEndTag blockType (st4\<lparr>currentBlock := currentBlock st4 + 1\<rparr>)"
        using r unfold by simp
      then show ?thesis using c4 by simp
    next
      case True
      from True r unfold obtain st7 st8 where
        s7: "processBlocksAtDepth gen (getDepth (the (getNextBlock gen st4))) st6 = Inr st7"
        and s8: "indent (st7\<lparr>wrapperTag := wrapperTag (push [NEWLINE] st4),
                              indentLevel := indentLevel st7 - 1\<rparr>) = Inr st8"
        and e: "st' = writeEndTag blockType st8"
        by (auto split: sum.splits)
      have "currentBlock st6 \<le> currentBlock st7"
        using "1.hyps"(2)[OF b blockType_def refl s1 s2 refl st4_def refl
            True[unfolded nest_def] refl refl st6_def] s7
        by blast
      moreover have "currentBlock st8 = currentBlock st7"
        using currentBlock_indent[OF s8] by simp
      moreover have "currentBlock st6 = currentBlock st + 1"
        using c4 by (simp add: st6_def)
      ultimately show ?thesis using e by simp
    qed
  qed
next
  case (2 gen depth st)
  show ?case
  proof (intro allI impI)
    fix st' assume r: "processBlocksAtDepth gen depth st = Inr st'"
    show "currentBlock st \<le> currentBlock st'"
    proof (cases "blockAt gen (currentBlock st)")
      case None
      then have "closeWrapperTag st = Inr st'"
        using r by (simp add: processBlocksAtDepth.psimps[OF "2.hyps"(1)])
      then show ?thesis by (simp add: currentBlock_closeWrapperTag)
    next
      case (Some block)
      show ?thesis
      proof (cases "getDepth block = depth")
        case False
        then have "closeWrapperTag st = Inr st'"
          using r Some by (simp add: processBlocksAtDepth.psimps[OF "2.hyps"(1)])
        then show ?thesis by (simp add: currentBlock_closeWrapperTag)
      next
        case True
        from r Some True obtain st1 where p: "processBlock gen st = Inr st1"
          and q: "processBlocksAtDepth gen depth st1 = Inr st'"
          by (auto simp: processBlocksAtDepth.psimps[OF "2.hyps"(1)] split: sum.splits)
        have "currentBlock st < currentBlock st1"
          using "2.hyps"(2)[OF Some True] p by blast
        moreover have "currentBlock st1 \<le> currentBlock st'"
          using "2.hyps"(3)[OF Some True p] q by blast
        ultimately show ?thesis by simp
      qed
    qed
  qed
qed

lemma processBlock_total: "All processBlock_processBlocksAtDepth_dom"
proof (relation "measure (\<lambda>x. case x of
          Inl (gen, st) \<Rightarrow> 2 * (length (blocks gen) - currentBlock st)
        | Inr (gen, d, st) \<Rightarrow> 2 * (length (blocks gen) - currentBlock st) + 1)",
    goal_cases)
  case 1
  show ?case by simp
next
  case (2 gen st block blockType newWrapperTag st1 st2 st3 st4 nextBlock st5 thisWrapperTag st6)
  have "currentBlock st4 = currentBlock st"
    using 2 currentBlock_switchWrapperTag currentBlock_indent by simp
  moreover have "currentBlock st4 + 1 < length (blocks gen)"
    using 2 by (auto simp: getNextBlock_def blockAt_def split: if_splits)
  ultimately show ?case using 2 by simp
next
  case (3 gen depth st block)
  then show ?case by (simp add: blockAt_def split: if_splits)
next
  case (4 gen depth st block st')
  have "currentBlock st < length (blocks gen)"
    using 4 by (simp add: blockAt_def split: if_splits)
  moreover have "currentBlock st < currentBlock st'"
    using cursor_partial(1)[OF 4(4)] 4(3) by blast
  ultimately show ?case by simp
qed

termination processBlock
  by (rule processBlock_total)

declare processBlock.simps [simp del] processBlocksAtDepth.simps [simp del]

text \<open>The step of \<open>processBlock\<close> once its first three statements have succeeded.\<close>

lemma processBlock_unfold:
  assumes b: "blockAt gen (currentBlock st) = Some block"
    and s1: "switchWrapperTag (getWrapperTag (getType block)) st = Inr st1"
    and s2: "indent st1 = Inr st2"
    and st4: "st4 = push (renderBlockContent gen block) (writeStartTag (getType block) st2)"
    and nest: "nest \<longleftrightarrow> canHaveDepth (getType block) \<and> getNextBlock gen st4 \<noteq> None \<and>
                  getDepth (the (getNextBlock gen st4)) = getDepth block + 1"
    and st6: "st6 = (push [NEWLINE] st4)\<lparr>wrapperTag := None,
          indentLevel := indentLevel (push [NEWLINE] st4) + 1,
          currentBlock := currentBlock (push [NEWLINE] st4) + 1\<rparr>"
  shows "processBlock gen st =
        (if nest then
           (case processBlocksAtDepth gen (getDepth (the (getNextBlock gen st4))) st6 of
              Inl e \<Rightarrow> Inl e
            | Inr st7 \<Rightarrow>
               (case indent (st7\<lparr>wrapperTag := wrapperTag (push [NEWLINE] st4),
                                  indentLevel := indentLevel st7 - 1\<rparr>) of
                  Inl e \<Rightarrow> Inl e
                | Inr st8 \<Rightarrow> Inr (writeEndTag (getType block) st8)))
         else Inr (writeEndTag (getType block) (st4\<lparr>currentBlock := currentBlock st4 + 1\<rparr>)))"
  unfolding processBlock.simps[of gen st] Let_def nest st6 st4
  by (simp only: b s1 s2 option.case sum.case)

lemma processBlock_cursor:
  "processBlock gen st = Inr st' \<Longrightarrow> currentBlock st < currentBlock st'"
  using cursor_partial(1)[of gen st] processBlock_total by blast

lemma processBlocksAtDepth_cursor:
  "processBlocksAtDepth gen d st = Inr st' \<Longrightarrow> currentBlock st \<le> currentBlock st'"
  using cursor_partial(2)[of gen d st] processBlock_total by blast

termination generate_loop
proof (relation "measure (\<lambda>(gen, st). length (blocks gen) - currentBlock st)", goal_cases)
  case 1
  show ?case by simp
next
  case (2 gen st st')
  then show ?case using processBlock_cursor[of gen st st'] by simp
qed

declare generate_loop.simps [simp del]

section \<open>Splitting, joining and the two encodings\<close>

lemma join_Nil: "join [] ps = concat ps"
  by (induction "[] :: string" ps rule: join.induct) simp_all

lemma split_not_Nil: "split c t \<noteq> []"
  by (induction t) (auto split: list.splits)

lemma join_Nil_Cons: "ps \<noteq> [] \<Longrightarrow> join s ([] # ps) = s @ join s ps"
  by (cases ps) simp_all

lemma join_Cons_Cons: "join s ((x # p) # ps) = x # join s (p # ps)"
  by (cases ps) simp_all

text \<open>Splitting at a character and joining with a string replaces the character.\<close>

lemma join_split: "join s (split c t) = concat (map (\<lambda>x. if x = c then s else [x]) t)"
proof (induction t)
  case Nil
  show ?case by simp
next
  case (Cons x xs)
  show ?case
  proof (cases "x = c")
    case True
    then show ?thesis using Cons by (simp add: join_Nil_Cons split_not_Nil)
  next
    case False
    obtain p ps where sp: "split c xs = p # ps"
      using split_not_Nil[of c xs] by (cases "split c xs") auto
    show ?thesis using False Cons sp by (simp add: join_Cons_Cons)
  qed
qed

lemma concat_map_concat_map:
  "concat (map f (concat (map g xs))) = concat (map (\<lambda>x. concat (map f (g x))) xs)"
  by (induction xs) simp_all

lemma encodeContent_chars: "encodeContent text = concat (map encodeChar text)"
proof -
  have "concat (map (\<lambda>x. if x = NEWLINE then BREAK @ [NEWLINE] else [x])
          (concat (map (\<lambda>x. if x = NBSP then ''&nbsp;'' else [x])
            (concat (map (\<lambda>x. if x = CHR ''>'' then ''&gt;'' else [x])
              (concat (map (\<lambda>x. if x = CHR ''<'' then ''&lt;'' else [x])
                (if c = CHR ''&'' then ''&amp;'' else [c]))))))))
        = encodeChar c" for c
    by (simp add: encodeChar_def NBSP_def NEWLINE_def BREAK_def)
  then show ?thesis
    by (simp add: encodeContent_def join_split concat_map_concat_map)
qed

lemma encodeAttr_chars: "encodeAttr text = concat (map encodeAttrChar text)"
proof -
  have "concat (map (\<lambda>x. if x = DQUOTE then ''&quot;'' else [x])
          (concat (map (\<lambda>x. if x = CHR ''>'' then ''&gt;'' else [x])
            (concat (map (\<lambda>x. if x = CHR ''<'' then ''&lt;'' else [x])
              (if c = CHR ''&'' then ''&amp;'' else [c]))))))
        = encodeAttrChar c" for c
    by (simp add: encodeAttrChar_def DQUOTE_def)
  then show ?thesis
    by (simp add: encodeAttr_def join_split concat_map_concat_map)
qed

lemma decodeEntities_encodeChar:
  "decodeEntities (encodeChar c @ rest) =
     (if c = NEWLINE then BREAK @ [NEWLINE] else [c]) @ decodeEntities rest"
  by (simp add: encodeChar_def NBSP_def NEWLINE_def BREAK_def)

lemma decodeEntities_encoded:
  "decodeEntities (concat (map encodeChar text)) =
     concat (map (\<lambda>c. if c = NEWLINE then BREAK @ [NEWLINE] else [c]) text)"
  by (induction "text") (simp_all add: decodeEntities_encodeChar del: decodeEntities.simps(2))

lemma concat_map_singleton_if:
  "c \<notin> set text \<Longrightarrow> concat (map (\<lambda>x. if x = c then s else [x]) text) = text"
  by (induction "text") auto

text \<open>
  Claim C3, as amended. The content encoding replaces each character on its own, once:
  an ampersand, a less-than and a greater-than by their named entities (and the
  non-breaking space by its entity, a newline by the line-break element and a newline).
  Decoding the entities of the result gives the text back with the line-break element
  still before each newline; it gives back the text itself when the text has no newline.
\<close>

theorem encodeContent_roundtrip:
  "encodeContent text = concat (map encodeChar text) \<and>
   encodeChar (CHR ''&'') = ''&amp;'' \<and> encodeChar (CHR ''<'') = ''&lt;'' \<and>
   encodeChar (CHR ''>'') = ''&gt;'' \<and>
   decodeEntities (encodeContent text) =
     concat (map (\<lambda>c. if c = NEWLINE then BREAK @ [NEWLINE] else [c]) text) \<and>
   (NEWLINE \<notin> set text \<longrightarrow> decodeEntities (encodeContent text) = text)"
proof -
  have "decodeEntities (encodeContent text) =
     concat (map (\<lambda>c. if c = NEWLINE then BREAK @ [NEWLINE] else [c]) text)"
    by (simp only: encodeContent_chars decodeEntities_encoded)
  moreover have "encodeChar (CHR ''&'') = ''&amp;''" "encodeChar (CHR ''<'') = ''&lt;''"
    "encodeChar (CHR ''>'') = ''&gt;''"
    by (simp_all add: encodeChar_def)
  ultimately show ?thesis
    by (simp add: encodeContent_chars concat_map_singleton_if)
qed

theorem encodeContent_roundtrip_witness:
  "NEWLINE \<notin> set ''a&b<c> d'' \<and>
   encodeContent ''a&b<c> d'' = ''a&amp;b&lt;c&gt; d'' \<and>
   decodeEntities (encodeContent ''a&b<c> d'') = ''a&b<c> d''"
proof -
  have h: "NEWLINE \<notin> set ''a&b<c> d''"
    by (simp add: NEWLINE_def)
  have "encodeContent ''a&b<c> d'' = ''a&amp;b&lt;c&gt; d''"
    using encodeContent_roundtrip[of "''a&b<c> d''"]
    by (simp add: encodeChar_def NBSP_def NEWLINE_def)
  moreover have "decodeEntities (encodeContent ''a&b<c> d'') = ''a&b<c> d''"
    using encodeContent_roundtrip[of "''a&b<c> d''"] h by blast
  ultimately show ?thesis using h by blast
qed

theorem encodeContent_roundtrip_counterexample:
  "decodeEntities (encodeContent [CHR ''&'', NEWLINE]) = ''&<br/>'' @ [NEWLINE] \<and>
   decodeEntities (encodeContent [CHR ''&'', NEWLINE]) \<noteq> [CHR ''&'', NEWLINE]"
  by (simp add: encodeContent_chars encodeChar_def NBSP_def NEWLINE_def)

section \<open>Whitespace preservation\<close>

lemma preserveWhitespace_loop_eq:
  "length newText = length text \<Longrightarrow> i \<le> length text \<Longrightarrow>
   preserveWhitespace_loop text i newText =
     take i newText @
     map (\<lambda>i. if text ! i = CHR '' '' \<and>
                  (i = 0 \<or> i = length text - 1 \<or> text ! (i - 1) = CHR '' '')
               then [NBSP] else [text ! i]) [i..<length text]"
proof (induction "text" i newText rule: preserveWhitespace_loop.induct)
  case (1 t i newText)
  show ?case
  proof (cases "i < length t")
    case False
    then have "preserveWhitespace_loop t i newText = newText"
      by (subst preserveWhitespace_loop.simps) simp
    then show ?thesis using False 1(2,3) by simp
  next
    case True
    have "take (i + 1) (newText[i := v]) = take i newText @ [v]" for v
      using True 1(2) by (simp add: take_Suc_conv_app_nth)
    then show ?thesis
      using True 1(1)[OF True] 1(2)
      by (subst preserveWhitespace_loop.simps) (simp add: upt_conv_Cons)
  qed
qed

lemma preserveWhitespace_map:
  "preserveWhitespace text =
     map (\<lambda>i. if text ! i = CHR '' '' \<and>
                  (i = 0 \<or> i = length text - 1 \<or> text ! (i - 1) = CHR '' '')
               then NBSP else text ! i) [0..<length text]"
proof -
  have "concat (map (\<lambda>i. if P i then [a] else [f i]) is) =
        map (\<lambda>i. if P i then a else f i) is" for P a and f :: "nat \<Rightarrow> char" and "is"
    by (induction "is") simp_all
  then show ?thesis
    by (simp add: preserveWhitespace_def join_Nil preserveWhitespace_loop_eq)
qed

lemma renderBlockContent_unfold:
  "renderBlockContent gen block =
     (if getText block = [] then BREAK
      else concat (map (renderEntityPiece gen block)
             (getEntityRanges gen (preserveWhitespace (getText block))
                (getCharacterList block))))"
  by (simp add: renderBlockContent_def Let_def join_Nil)

text \<open>
  Claim C4. The whitespace-preservation step keeps the length of the text and decides
  each index on its own: a space becomes the non-breaking space exactly when it is at
  index 0, at the last index, or right after a space of the text; every other character,
  among them every other space, stays. The content of a block with text is rendered from
  the ranges of the text so preserved: the step runs once, before the text is split.
\<close>

theorem preserveWhitespace_spaces:
  "length (preserveWhitespace text) = length text \<and>
   (\<forall>i < length text.
      preserveWhitespace text ! i =
        (if text ! i = CHR '' '' \<and>
            (i = 0 \<or> i = length text - 1 \<or> text ! (i - 1) = CHR '' '')
         then NBSP else text ! i)) \<and>
   (getText block \<noteq> [] \<longrightarrow>
      renderBlockContent gen block =
        concat (map (renderEntityPiece gen block)
          (getEntityRanges gen (preserveWhitespace (getText block))
             (getCharacterList block))))"
  by (auto simp: preserveWhitespace_map renderBlockContent_unfold)

theorem preserveWhitespace_spaces_witness:
  "(1::nat) < length '' a  b'' \<and>
   preserveWhitespace '' a  b'' ! 0 = NBSP \<and>
   preserveWhitespace '' a  b'' ! 2 = CHR '' '' \<and>
   preserveWhitespace '' a  b'' ! 3 = NBSP \<and>
   getText entityParagraph \<noteq> [] \<and>
   renderBlockContent (entityGenerator linkEntity) entityParagraph =
     concat (map (renderEntityPiece (entityGenerator linkEntity) entityParagraph)
       (getEntityRanges (entityGenerator linkEntity)
          (preserveWhitespace (getText entityParagraph))
          (getCharacterList entityParagraph)))"
proof -
  have h: "getText entityParagraph \<noteq> []"
    by (simp add: entityParagraph_def)
  show ?thesis
    using preserveWhitespace_spaces[of "'' a  b''" entityParagraph "entityGenerator linkEntity"] h
    by simp
qed

section \<open>Decoration of a style piece\<close>

lemma OLD_INLINE_STYLES_keys:
  "map fst OLD_INLINE_STYLES =
     [''SIZE_NORMAL'', ''SIZE_SMALLER'', ''SIZE_LARGER'', ''SIZE_HUGE'',
      ''COLOR0'', ''BACKGROUND_COLOR0'', ''COLOR1'', ''BACKGROUND_COLOR1'',
      ''COLOR2'', ''BACKGROUND_COLOR2'', ''COLOR3'', ''BACKGROUND_COLOR3'',
      ''COLOR4'', ''BACKGROUND_COLOR4'', ''COLOR5'', ''BACKGROUND_COLOR5'',
      ''COLOR6'', ''BACKGROUND_COLOR6'', ''COLOR7'', ''BACKGROUND_COLOR7'',
      ''COLOR8'', ''BACKGROUND_COLOR8'', ''COLOR9'', ''BACKGROUND_COLOR9'',
      ''COLOR10'', ''BACKGROUND_COLOR10'', ''COLOR11'', ''BACKGROUND_COLOR11'',
      ''COLOR12'', ''BACKGROUND_COLOR12'', ''COLOR13'', ''BACKGROUND_COLOR13'',
      ''COLOR14'', ''BACKGROUND_COLOR14'', ''COLOR15'', ''BACKGROUND_COLOR15'',
      ''COLOR16'', ''BACKGROUND_COLOR16'', ''COLOR17'', ''BACKGROUND_COLOR17'',
      ''COLOR18'', ''BACKGROUND_COLOR18'', ''COLOR19'', ''BACKGROUND_COLOR19'',
      ''COLOR20'', ''BACKGROUND_COLOR20'', ''COLOR21'', ''BACKGROUND_COLOR21'',
      ''COLOR22'', ''BACKGROUND_COLOR22'', ''COLOR23'', ''BACKGROUND_COLOR23'',
      ''COLOR24'', ''BACKGROUND_COLOR24'', ''COLOR25'', ''BACKGROUND_COLOR25'',
      ''COLOR26'', ''BACKGROUND_COLOR26'', ''COLOR27'', ''BACKGROUND_COLOR27'',
      ''COLOR28'', ''BACKGROUND_COLOR28'', ''COLOR29'', ''BACKGROUND_COLOR29'',
      ''COLOR30'', ''BACKGROUND_COLOR30'', ''COLOR31'', ''BACKGROUND_COLOR31'',
      ''COLOR32'', ''BACKGROUND_COLOR32'', ''COLOR33'', ''BACKGROUND_COLOR33'',
      ''COLOR34'', ''BACKGROUND_COLOR34'']"
  by code_simp

text \<open>The built-in labels are no legacy labels, in either table.\<close>

lemma builtin_not_legacy:
  "BOLD \<notin> set (map fst COLOR_STYLE_MAP)" "UNDERLINE \<notin> set (map fst COLOR_STYLE_MAP)"
  "ITALIC \<notin> set (map fst COLOR_STYLE_MAP)"
  "BOLD \<notin> set (map fst OLD_INLINE_STYLES)" "UNDERLINE \<notin> set (map fst OLD_INLINE_STYLES)"
  "ITALIC \<notin> set (map fst OLD_INLINE_STYLES)"
  by (simp_all add: COLOR_STYLE_MAP_def OLD_INLINE_STYLES_keys BOLD_def UNDERLINE_def ITALIC_def)

lemma builtin_distinct:
  "BOLD \<noteq> ITALIC" "BOLD \<noteq> UNDERLINE" "BOLD \<noteq> STRIKETHROUGH" "BOLD \<noteq> CODE"
  "ITALIC \<noteq> UNDERLINE" "ITALIC \<noteq> STRIKETHROUGH" "ITALIC \<noteq> CODE"
  "UNDERLINE \<noteq> STRIKETHROUGH" "UNDERLINE \<noteq> CODE" "STRIKETHROUGH \<noteq> CODE"
  by (simp_all add: BOLD_def ITALIC_def UNDERLINE_def STRIKETHROUGH_def CODE_def)

lemma filter_no_legacy:
  "set style \<inter> set keys = {} \<Longrightarrow> filter (\<lambda>label. label \<in> set style) keys = []"
  "set style \<inter> set keys = {} \<Longrightarrow> filter (\<lambda>label. label \<in> set keys) style = []"
  by (auto simp: filter_empty_conv)

lemma renderStylePiece_plain:
  assumes "set style \<inter> set (map fst COLOR_STYLE_MAP) = {}"
    and "getType block \<noteq> CHECKABLE_LIST_ITEM"
  shows "renderStylePiece checked block (t, style) =
     wrapIf (CODE \<in> set style \<and> getType block \<noteq> CODE_BLOCK) ''code''
       (wrapIf (STRIKETHROUGH \<in> set style) ''del''
         (wrapIf (ITALIC \<in> set style) ''em''
           (wrapIf (UNDERLINE \<in> set style) ''ins''
             (wrapIf (BOLD \<in> set style) ''strong'' (encodeContent t)))))"
  using assms(2) filter_no_legacy(1)[OF assms(1)]
  by (simp add: renderStylePiece_def Let_def wrapIf_def)

lemma renderStylePiece_old_plain:
  assumes "set style \<inter> set (map fst OLD_INLINE_STYLES) = {}"
    and "getType block \<noteq> CHECKABLE_LIST_ITEM"
  shows "renderStylePiece_old checked block (t, style) =
     wrapIf (CODE \<in> set style \<and> getType block \<noteq> CODE_BLOCK) ''code''
       (wrapIf (STRIKETHROUGH \<in> set style) ''del''
         (wrapIf (ITALIC \<in> set style) ''em''
           (wrapIf (UNDERLINE \<in> set style) ''ins''
             (wrapIf (BOLD \<in> set style) ''strong'' (encodeContent t)))))"
  using assms(2) filter_no_legacy(2)[OF assms(1)]
  by (simp add: renderStylePiece_old_def Let_def wrapIf_def)

lemma renderStylePiece_set:
  "set style = set style' \<Longrightarrow>
   renderStylePiece checked block (t, style) = renderStylePiece checked block (t, style')"
  by (simp add: renderStylePiece_def)

lemma bold_italic_underline:
  assumes "set style = {BOLD, ITALIC, UNDERLINE}"
  shows "set style \<inter> set (map fst COLOR_STYLE_MAP) = {}"
    and "set style \<inter> set (map fst OLD_INLINE_STYLES) = {}"
    and "BOLD \<in> set style" and "ITALIC \<in> set style" and "UNDERLINE \<in> set style"
    and "STRIKETHROUGH \<notin> set style" and "CODE \<notin> set style"
  using assms builtin_not_legacy builtin_distinct by auto

lemma legacy_present:
  "0 < length (filter (\<lambda>label. label \<in> set style) keys) \<longleftrightarrow> set style \<inter> set keys \<noteq> {}"
  "0 < length (filter (\<lambda>label. label \<in> set keys) style) \<longleftrightarrow> set style \<inter> set keys \<noteq> {}"
  by (auto simp: filter_empty_conv)

text \<open>
  The tags of the built-in labels and the checkbox, around any inner part \<open>x\<close>.
\<close>

lemma decoration_chain:
  "(let content = (x::string);
        content = (if b1 then ''<strong>'' @ content @ ''</strong>'' else content);
        content = (if b2 then ''<ins>'' @ content @ ''</ins>'' else content);
        content = (if b3 then ''<em>'' @ content @ ''</em>'' else content);
        content = (if b4 then ''<del>'' @ content @ ''</del>'' else content);
        content = (if b5 then (if cb then content else ''<code>'' @ content @ ''</code>'')
                   else content);
        content = (if chk
                     then (let isChecked = (c :: bool option)
                           in ''<input type=\"checkbox\" '' @
                              (if isChecked = Some True then ''checked '' else []) @
                              ''/>'' @ content)
                     else content)
      in content) =
   (if chk then ''<input type=\"checkbox\" '' @
            (if c = Some True then ''checked '' else []) @ ''/>''
       else []) @
      wrapIf (b5 \<and> \<not> cb) ''code''
        (wrapIf b4 ''del''
          (wrapIf b3 ''em''
            (wrapIf b2 ''ins''
              (wrapIf b1 ''strong'' x))))"
  by (cases chk; cases b5; cases cb; cases b4; cases b3; cases b2; cases b1; simp add: wrapIf_def)

text \<open>
  With any style set: the checkbox of a checkable item, then the tags around an inner
  part, which is the encoded text, inside a span when a legacy label is in the set.
\<close>

lemma renderStylePiece_nesting:
  "\<exists>inner. renderStylePiece checked block (t, style) =
      (if getType block = CHECKABLE_LIST_ITEM
       then ''<input type=\"checkbox\" '' @
            (if checked (getKey block) = Some True then ''checked '' else []) @ ''/>''
       else []) @
      wrapIf (CODE \<in> set style \<and> getType block \<noteq> CODE_BLOCK) ''code''
        (wrapIf (STRIKETHROUGH \<in> set style) ''del''
          (wrapIf (ITALIC \<in> set style) ''em''
            (wrapIf (UNDERLINE \<in> set style) ''ins''
              (wrapIf (BOLD \<in> set style) ''strong'' inner)))) \<and>
     (set style \<inter> set (map fst COLOR_STYLE_MAP) = {} \<longrightarrow> inner = encodeContent t) \<and>
     (set style \<inter> set (map fst COLOR_STYLE_MAP) \<noteq> {} \<longrightarrow>
        (\<exists>css. inner = ''<span style=\"'' @ css @ ''\">'' @ encodeContent t @ ''</span>''))"
proof -
  define css where "css =
     join '' '' (map (\<lambda>prop. decamelize prop (Some ''-'') @ '': '' @
                        (case map_of (foldl (\<lambda>result label.
                                      (case map_of COLOR_STYLE_MAP label of
                                         Some props \<Rightarrow> Object_assign result props
                                       | None \<Rightarrow> result))
                               [] (filter (\<lambda>label. label \<in> set style) (map fst COLOR_STYLE_MAP))) prop of
                           Some v \<Rightarrow> v | None \<Rightarrow> ''undefined'') @ '';'')
                   (map fst (foldl (\<lambda>result label.
                                      (case map_of COLOR_STYLE_MAP label of
                                         Some props \<Rightarrow> Object_assign result props
                                       | None \<Rightarrow> result))
                               [] (filter (\<lambda>label. label \<in> set style) (map fst COLOR_STYLE_MAP)))))"
  define legacy where "legacy \<longleftrightarrow>
     0 < length (filter (\<lambda>label. label \<in> set style) (map fst COLOR_STYLE_MAP))"
  define inner where "inner =
     (if legacy then ''<span style=\"'' @ css @ ''\">'' @ encodeContent t @ ''</span>''
      else encodeContent t)"
  have "renderStylePiece checked block (t, style) =
     (let content = inner;
        content = (if BOLD \<in> set style then ''<strong>'' @ content @ ''</strong>'' else content);
        content = (if UNDERLINE \<in> set style then ''<ins>'' @ content @ ''</ins>'' else content);
        content = (if ITALIC \<in> set style then ''<em>'' @ content @ ''</em>'' else content);
        content = (if STRIKETHROUGH \<in> set style then ''<del>'' @ content @ ''</del>'' else content);
        content = (if CODE \<in> set style
                   then (if getType block = CODE_BLOCK then content
                         else ''<code>'' @ content @ ''</code>'')
                   else content);
        content = (if getType block = CHECKABLE_LIST_ITEM
                     then (let isChecked = checked (getKey block)
                           in ''<input type=\"checkbox\" '' @
                              (if isChecked = Some True then ''checked '' else []) @
                              ''/>'' @ content)
                     else content)
      in content)"
    unfolding renderStylePiece_def Let_def fst_conv snd_conv inner_def legacy_def css_def
    by (rule refl)
  also have "\<dots> =
      (if getType block = CHECKABLE_LIST_ITEM
       then ''<input type=\"checkbox\" '' @
            (if checked (getKey block) = Some True then ''checked '' else []) @ ''/>''
       else []) @
      wrapIf (CODE \<in> set style \<and> getType block \<noteq> CODE_BLOCK) ''code''
        (wrapIf (STRIKETHROUGH \<in> set style) ''del''
          (wrapIf (ITALIC \<in> set style) ''em''
            (wrapIf (UNDERLINE \<in> set style) ''ins''
              (wrapIf (BOLD \<in> set style) ''strong'' inner))))"
    by (rule decoration_chain)
  finally have eq: "renderStylePiece checked block (t, style) =
      (if getType block = CHECKABLE_LIST_ITEM
       then ''<input type=\"checkbox\" '' @
            (if checked (getKey block) = Some True then ''checked '' else []) @ ''/>''
       else []) @
      wrapIf (CODE \<in> set style \<and> getType block \<noteq> CODE_BLOCK) ''code''
        (wrapIf (STRIKETHROUGH \<in> set style) ''del''
          (wrapIf (ITALIC \<in> set style) ''em''
            (wrapIf (UNDERLINE \<in> set style) ''ins''
              (wrapIf (BOLD \<in> set style) ''strong'' inner))))" .
  have l: "legacy \<longleftrightarrow> set style \<inter> set (map fst COLOR_STYLE_MAP) \<noteq> {}"
    unfolding legacy_def by (rule legacy_present(1))
  show ?thesis
  proof (rule exI[of _ inner], intro conjI impI)
    show "renderStylePiece checked block (t, style) =
      (if getType block = CHECKABLE_LIST_ITEM
       then ''<input type=\"checkbox\" '' @
            (if checked (getKey block) = Some True then ''checked '' else []) @ ''/>''
       else []) @
      wrapIf (CODE \<in> set style \<and> getType block \<noteq> CODE_BLOCK) ''code''
        (wrapIf (STRIKETHROUGH \<in> set style) ''del''
          (wrapIf (ITALIC \<in> set style) ''em''
            (wrapIf (UNDERLINE \<in> set style) ''ins''
              (wrapIf (BOLD \<in> set style) ''strong'' inner))))"
      by (rule eq)
    show "inner = encodeContent t" if h: "set style \<inter> set (map fst COLOR_STYLE_MAP) = {}"
    proof -
      from h have "\<not> legacy" by (simp only: l not_not)
      then show ?thesis unfolding inner_def by (simp only: if_False)
    qed
    show "\<exists>css. inner = ''<span style=\"'' @ css @ ''\">'' @ encodeContent t @ ''</span>''"
      if h: "set style \<inter> set (map fst COLOR_STYLE_MAP) \<noteq> {}"
    proof -
      from h have "legacy" by (simp only: l not_False_eq_True)
      then have i: "inner = ''<span style=\"'' @ css @ ''\">'' @ encodeContent t @ ''</span>''"
        unfolding inner_def by (simp only: if_True)
      show ?thesis by (rule exI[of _ css], rule i)
    qed
  qed
qed

lemma renderStylePiece_old_nesting:
  "\<exists>inner. renderStylePiece_old checked block (t, style) =
      (if getType block = CHECKABLE_LIST_ITEM
       then ''<input type=\"checkbox\" '' @
            (if checked (getKey block) = Some True then ''checked '' else []) @ ''/>''
       else []) @
      wrapIf (CODE \<in> set style \<and> getType block \<noteq> CODE_BLOCK) ''code''
        (wrapIf (STRIKETHROUGH \<in> set style) ''del''
          (wrapIf (ITALIC \<in> set style) ''em''
            (wrapIf (UNDERLINE \<in> set style) ''ins''
              (wrapIf (BOLD \<in> set style) ''strong'' inner)))) \<and>
     (set style \<inter> set (map fst OLD_INLINE_STYLES) = {} \<longrightarrow> inner = encodeContent t) \<and>
     (set style \<inter> set (map fst OLD_INLINE_STYLES) \<noteq> {} \<longrightarrow>
        (\<exists>css. inner = ''<span style=\"'' @ css @ ''\">'' @ encodeContent t @ ''</span>''))"
proof -
  define styles where "styles =
     foldl (\<lambda>result style.
              foldl (\<lambda>r prop.
                       (case map_of (the (map_of OLD_INLINE_STYLES style)) prop of
                          Some v \<Rightarrow> AList.update prop v r
                        | None \<Rightarrow> r))
                result (map fst (the (map_of OLD_INLINE_STYLES style))))
       [] (filter (\<lambda>style. style \<in> set (map fst OLD_INLINE_STYLES)) style)"
  define css where "css =
     join '' '' (map (\<lambda>prop.
                        let v = (case map_of styles prop of Some v \<Rightarrow> v
                                 | None \<Rightarrow> ''undefined'');
                            val = (if prop = ''fontSize'' then v @ ''px'' else v)
                        in decamelize prop (Some ''-'') @ '': '' @ val @ '';'')
                   (map fst styles))"
  define legacy where "legacy \<longleftrightarrow>
     0 < length (filter (\<lambda>style. style \<in> set (map fst OLD_INLINE_STYLES)) style)"
  define inner where "inner =
     (if legacy then ''<span style=\"'' @ css @ ''\">'' @ encodeContent t @ ''</span>''
      else encodeContent t)"
  have "renderStylePiece_old checked block (t, style) =
     (let content = inner;
        content = (if BOLD \<in> set style then ''<strong>'' @ content @ ''</strong>'' else content);
        content = (if UNDERLINE \<in> set style then ''<ins>'' @ content @ ''</ins>'' else content);
        content = (if ITALIC \<in> set style then ''<em>'' @ content @ ''</em>'' else content);
        content = (if STRIKETHROUGH \<in> set style then ''<del>'' @ content @ ''</del>'' else content);
        content = (if CODE \<in> set style
                   then (if getType block = CODE_BLOCK then content
                         else ''<code>'' @ content @ ''</code>'')
                   else content);
        content = (if getType block = CHECKABLE_LIST_ITEM
                     then (let isChecked = checked (getKey block)
                           in ''<input type=\"checkbox\" '' @
                              (if isChecked = Some True then ''checked '' else []) @
                              ''/>'' @ content)
                     else content)
      in content)"
    unfolding renderStylePiece_old_def Let_def fst_conv snd_conv inner_def legacy_def css_def styles_def
    by (rule refl)
  also have "\<dots> =
      (if getType block = CHECKABLE_LIST_ITEM
       then ''<input type=\"checkbox\" '' @
            (if checked (getKey block) = Some True then ''checked '' else []) @ ''/>''
       else []) @
      wrapIf (CODE \<in> set style \<and> getType block \<noteq> CODE_BLOCK) ''code''
        (wrapIf (STRIKETHROUGH \<in> set style) ''del''
          (wrapIf (ITALIC \<in> set style) ''em''
            (wrapIf (UNDERLINE \<in> set style) ''ins''
              (wrapIf (BOLD \<in> set style) ''strong'' inner))))"
    by (rule decoration_chain)
  finally have eq: "renderStylePiece_old checked block (t, style) =
      (if getType block = CHECKABLE_LIST_ITEM
       then ''<input type=\"checkbox\" '' @
            (if checked (getKey block) = Some True then ''checked '' else []) @ ''/>''
       else []) @
      wrapIf (CODE \<in> set style \<and> getType block \<noteq> CODE_BLOCK) ''code''
        (wrapIf (STRIKETHROUGH \<in> set style) ''del''
          (wrapIf (ITALIC \<in> set style) ''em''
            (wrapIf (UNDERLINE \<in> set style) ''ins''
              (wrapIf (BOLD \<in> set style) ''strong'' inner))))" .
  have l: "legacy \<longleftrightarrow> set style \<inter> set (map fst OLD_INLINE_STYLES) \<noteq> {}"
    unfolding legacy_def by (rule legacy_present(2))
  show ?thesis
  proof (rule exI[of _ inner], intro conjI impI)
    show "renderStylePiece_old checked block (t, style) =
      (if getType block = CHECKABLE_LIST_ITEM
       then ''<input type=\"checkbox\" '' @
            (if checked (getKey block) = Some True then ''checked '' else []) @ ''/>''
       else []) @
      wrapIf (CODE \<in> set style \<and> getType block \<noteq> CODE_BLOCK) ''code''
        (wrapIf (STRIKETHROUGH \<in> set style) ''del''
          (wrapIf (ITALIC \<in> set style) ''em''
            (wrapIf (UNDERLINE \<in> set style) ''ins''
              (wrapIf (BOLD \<in> set style) ''strong'' inner))))"
      by (rule eq)
    show "inner = encodeContent t" if h: "set style \<inter> set (map fst OLD_INLINE_STYLES) = {}"
    proof -
      from h have "\<not> legacy" by (simp only: l not_not)
      then show ?thesis unfolding inner_def by (simp only: if_False)
    qed
    show "\<exists>css. inner = ''<span style=\"'' @ css @ ''\">'' @ encodeContent t @ ''</span>''"
      if h: "set style \<inter> set (map fst OLD_INLINE_STYLES) \<noteq> {}"
    proof -
      from h have "legacy" by (simp only: l not_False_eq_True)
      then have i: "inner = ''<span style=\"'' @ css @ ''\">'' @ encodeContent t @ ''</span>''"
        unfolding inner_def by (simp only: if_True)
      show ?thesis by (rule exI[of _ css], rule i)
    qed
  qed
qed

text \<open>
  A legacy label next to a built-in one, in each variant: the span is inside the tag.
\<close>

lemma legacy_span_example:
  "renderStylePiece Map.empty entityParagraph (''x'', [''TEXT_RED'', BOLD]) =
     ''<strong><span style=\"color: rgb(255, 0, 0);\">x</span></strong>''"
  "renderStylePiece_old Map.empty entityParagraph (''x'', [''COLOR1'', ''SIZE_HUGE'', ITALIC]) =
     ''<em><span style=\"color: rgb(230, 0, 0); font-size: 32px;\">x</span></em>''"
  by code_simp+

text \<open>
  Claim C1, as amended. A style piece whose style set is exactly bold, italic and
  underline, in a block that is neither a code block nor a checkable item, renders as
  \<open><em><ins><strong>E</strong></ins></em>\<close>, where \<open>E\<close> is the encoded text, in both
  variants of the exporter. More generally, for every style set, the tags nest from the
  outermost to the innermost in the order code, del, em, ins, strong, and the span of
  the legacy labels, when there is one, is the innermost, around the encoded text; the
  checkbox of a checkable item stands before them. In the first variant the rendering
  depends on the members of the set only, not on the order they were added in.
\<close>

theorem style_nesting_order:
  "(set style = {BOLD, ITALIC, UNDERLINE} \<and> getType block \<noteq> CODE_BLOCK \<and>
    getType block \<noteq> CHECKABLE_LIST_ITEM \<longrightarrow>
      renderStylePiece checked block (t, style) =
        ''<em><ins><strong>'' @ encodeContent t @ ''</strong></ins></em>'' \<and>
      renderStylePiece_old checked block (t, style) =
        ''<em><ins><strong>'' @ encodeContent t @ ''</strong></ins></em>'') \<and>
   (\<exists>inner. renderStylePiece checked block (t, style) =
      (if getType block = CHECKABLE_LIST_ITEM
       then ''<input type=\"checkbox\" '' @
            (if checked (getKey block) = Some True then ''checked '' else []) @ ''/>''
       else []) @
      wrapIf (CODE \<in> set style \<and> getType block \<noteq> CODE_BLOCK) ''code''
        (wrapIf (STRIKETHROUGH \<in> set style) ''del''
          (wrapIf (ITALIC \<in> set style) ''em''
            (wrapIf (UNDERLINE \<in> set style) ''ins''
              (wrapIf (BOLD \<in> set style) ''strong'' inner)))) \<and>
     (set style \<inter> set (map fst COLOR_STYLE_MAP) = {} \<longrightarrow> inner = encodeContent t) \<and>
     (set style \<inter> set (map fst COLOR_STYLE_MAP) \<noteq> {} \<longrightarrow>
        (\<exists>css. inner = ''<span style=\"'' @ css @ ''\">'' @ encodeContent t @ ''</span>''))) \<and>
   (\<exists>inner. renderStylePiece_old checked block (t, style) =
      (if getType block = CHECKABLE_LIST_ITEM
       then ''<input type=\"checkbox\" '' @
            (if checked (getKey block) = Some True then ''checked '' else []) @ ''/>''
       else []) @
      wrapIf (CODE \<in> set style \<and> getType block \<noteq> CODE_BLOCK) ''code''
        (wrapIf (STRIKETHROUGH \<in> set style) ''del''
          (wrapIf (ITALIC \<in> set style) ''em''
            (wrapIf (UNDERLINE \<in> set style) ''ins''
              (wrapIf (BOLD \<in> set style) ''strong'' inner)))) \<and>
     (set style \<inter> set (map fst OLD_INLINE_STYLES) = {} \<longrightarrow> inner = encodeContent t) \<and>
     (set style \<inter> set (map fst OLD_INLINE_STYLES) \<noteq> {} \<longrightarrow>
        (\<exists>css. inner = ''<span style=\"'' @ css @ ''\">'' @ encodeContent t @ ''</span>''))) \<and>
   (set style = set style' \<longrightarrow>
      renderStylePiece checked block (t, style) = renderStylePiece checked block (t, style'))"
proof -
  have "renderStylePiece checked block (t, style) =
          ''<em><ins><strong>'' @ encodeContent t @ ''</strong></ins></em>'' \<and>
        renderStylePiece_old checked block (t, style) =
          ''<em><ins><strong>'' @ encodeContent t @ ''</strong></ins></em>''"
    if s: "set style = {BOLD, ITALIC, UNDERLINE}" and c: "getType block \<noteq> CHECKABLE_LIST_ITEM"
  proof -
    note m = bold_italic_underline[OF s]
    show ?thesis
      by (simp add: renderStylePiece_plain[OF m(1) c] renderStylePiece_old_plain[OF m(2) c]
          m(3-7) wrapIf_def)
  qed
  then have first: "set style = {BOLD, ITALIC, UNDERLINE} \<and> getType block \<noteq> CODE_BLOCK \<and>
    getType block \<noteq> CHECKABLE_LIST_ITEM \<longrightarrow>
      renderStylePiece checked block (t, style) =
        ''<em><ins><strong>'' @ encodeContent t @ ''</strong></ins></em>'' \<and>
      renderStylePiece_old checked block (t, style) =
        ''<em><ins><strong>'' @ encodeContent t @ ''</strong></ins></em>''"
    by blast
  have last: "set style = set style' \<longrightarrow>
      renderStylePiece checked block (t, style) = renderStylePiece checked block (t, style')"
    using renderStylePiece_set[of style style' checked block t] by blast
  show ?thesis
    using first renderStylePiece_nesting[of checked block t style]
      renderStylePiece_old_nesting[of checked block t style] last
    by (intro conjI)
qed

theorem style_nesting_order_witness:
  "set [UNDERLINE, BOLD, ITALIC] = {BOLD, ITALIC, UNDERLINE} \<and>
   set [UNDERLINE, BOLD, ITALIC] = set [ITALIC, UNDERLINE, BOLD] \<and>
   set [UNDERLINE, BOLD, ITALIC] \<inter> set (map fst COLOR_STYLE_MAP) = {} \<and>
   set [UNDERLINE, BOLD, ITALIC] \<inter> set (map fst OLD_INLINE_STYLES) = {} \<and>
   getType entityParagraph \<noteq> CODE_BLOCK \<and>
   getType entityParagraph \<noteq> CHECKABLE_LIST_ITEM \<and>
   renderStylePiece Map.empty entityParagraph (''a<b'', [UNDERLINE, BOLD, ITALIC]) =
     ''<em><ins><strong>a&lt;b</strong></ins></em>'' \<and>
   renderStylePiece_old Map.empty entityParagraph (''a<b'', [UNDERLINE, BOLD, ITALIC]) =
     ''<em><ins><strong>a&lt;b</strong></ins></em>'' \<and>
   renderStylePiece Map.empty entityParagraph (''a<b'', [ITALIC, UNDERLINE, BOLD]) =
     ''<em><ins><strong>a&lt;b</strong></ins></em>''"
proof -
  have s: "set [UNDERLINE, BOLD, ITALIC] = {BOLD, ITALIC, UNDERLINE}"
    and s': "set [UNDERLINE, BOLD, ITALIC] = set [ITALIC, UNDERLINE, BOLD]"
    by auto
  have b: "getType entityParagraph \<noteq> CODE_BLOCK"
    "getType entityParagraph \<noteq> CHECKABLE_LIST_ITEM"
    by (simp_all add: entityParagraph_def)
  have e: "encodeContent ''a<b'' = ''a&lt;b''"
    by (simp add: encodeContent_chars encodeChar_def NBSP_def NEWLINE_def)
  note m = bold_italic_underline(1,2)[OF s]
  note T = style_nesting_order[of "[UNDERLINE, BOLD, ITALIC]" entityParagraph Map.empty
        "''a<b''" "[ITALIC, UNDERLINE, BOLD]"]
  have r: "renderStylePiece Map.empty entityParagraph (''a<b'', [UNDERLINE, BOLD, ITALIC]) =
        ''<em><ins><strong>'' @ encodeContent ''a<b'' @ ''</strong></ins></em>''"
    "renderStylePiece_old Map.empty entityParagraph (''a<b'', [UNDERLINE, BOLD, ITALIC]) =
        ''<em><ins><strong>'' @ encodeContent ''a<b'' @ ''</strong></ins></em>''"
    using T s b by blast+
  have q: "renderStylePiece Map.empty entityParagraph (''a<b'', [ITALIC, UNDERLINE, BOLD]) =
      renderStylePiece Map.empty entityParagraph (''a<b'', [UNDERLINE, BOLD, ITALIC])"
    using T s' by simp
  have r1: "renderStylePiece Map.empty entityParagraph (''a<b'', [UNDERLINE, BOLD, ITALIC]) =
     ''<em><ins><strong>a&lt;b</strong></ins></em>''"
    and r2: "renderStylePiece_old Map.empty entityParagraph (''a<b'', [UNDERLINE, BOLD, ITALIC]) =
     ''<em><ins><strong>a&lt;b</strong></ins></em>''"
    and r3: "renderStylePiece Map.empty entityParagraph (''a<b'', [ITALIC, UNDERLINE, BOLD]) =
     ''<em><ins><strong>a&lt;b</strong></ins></em>''"
    using r q e by simp_all
  show ?thesis
    using s s' m b r1 r2 r3 by blast
qed

theorem style_nesting_order_counterexample:
  "set [BOLD, ITALIC, UNDERLINE] = {BOLD, ITALIC, UNDERLINE} \<and>
   set [BOLD, ITALIC, UNDERLINE] \<inter> set (map fst COLOR_STYLE_MAP) = {} \<and>
   getType entityParagraph \<noteq> CODE_BLOCK \<and>
   getType entityParagraph \<noteq> CHECKABLE_LIST_ITEM \<and>
   encodeContent ''x'' = ''x'' \<and>
   renderStylePiece Map.empty entityParagraph (''x'', [BOLD, ITALIC, UNDERLINE]) =
     ''<em><ins><strong>x</strong></ins></em>'' \<and>
   renderStylePiece Map.empty entityParagraph (''x'', [BOLD, ITALIC, UNDERLINE]) \<noteq>
     ''<ins><em><strong>'' @ encodeContent ''x'' @ ''</strong></em></ins>''"
proof -
  have s: "set [BOLD, ITALIC, UNDERLINE] = {BOLD, ITALIC, UNDERLINE}"
    by simp
  have b: "getType entityParagraph \<noteq> CHECKABLE_LIST_ITEM" "getType entityParagraph \<noteq> CODE_BLOCK"
    by (simp_all add: entityParagraph_def)
  have e: "encodeContent ''x'' = ''x''"
    by (simp add: encodeContent_chars encodeChar_def NBSP_def NEWLINE_def)
  note m = bold_italic_underline[OF s]
  have r: "renderStylePiece Map.empty entityParagraph (''x'', [BOLD, ITALIC, UNDERLINE]) =
     ''<em><ins><strong>x</strong></ins></em>''"
    using m(3-7) by (simp add: renderStylePiece_plain[OF m(1) b(1)] wrapIf_def e)
  show ?thesis
    using s m(1) b e r by simp
qed

section \<open>Blocks without text and documents without blocks\<close>

lemma renderBlockContent_empty: "getText block = [] \<Longrightarrow> renderBlockContent gen block = ''<br/>''"
  by (simp add: renderBlockContent_unfold BREAK_def)

lemma generate_no_blocks: "blocks gen = [] \<Longrightarrow> generate gen = Inr []"
  by (simp add: generate_def generate_run_def generate_loop.simps closeWrapperTag_def trim_def)

text \<open>
  Claim C7. The content of a block whose text is empty is the line-break placeholder
  \<open><br/>\<close>, which is not the empty string; and for a document with no blocks
  \<open>generate\<close> returns the empty string.
\<close>

theorem empty_block_placeholder:
  "(getText block = [] \<longrightarrow>
      renderBlockContent gen block = BREAK \<and> renderBlockContent gen block \<noteq> []) \<and>
   (blocks gen = [] \<longrightarrow> generate gen = Inr [])"
  by (simp add: renderBlockContent_empty generate_no_blocks BREAK_def)

theorem empty_block_placeholder_witness:
  "getText emptyCheckable = [] \<and> blocks (plainGenerator []) = [] \<and>
   renderBlockContent (plainGenerator []) emptyCheckable = ''<br/>'' \<and>
   generate (plainGenerator []) = Inr []"
proof -
  have h: "getText emptyCheckable = []" "blocks (plainGenerator []) = []"
    by (simp_all add: emptyCheckable_def plainGenerator_def)
  show ?thesis
    using empty_block_placeholder[of emptyCheckable "plainGenerator []"] h
    by (simp add: BREAK_def)
qed

text \<open>
  Claim C9. For a block whose text is empty, \<open>renderBlockContent\<close> returns the line-break
  placeholder and nothing else, whatever the type of the block, its character list, the
  checked-state map, the entity registry and the ranges are: no tag of a style, no span,
  no anchor, no image and, also for a checkable item whose key is checked, no checkbox.
\<close>

theorem empty_block_only_break:
  "getText block = [] \<Longrightarrow>
   renderBlockContent
     \<lparr>blocks = bs, checkedStateMap = checked, Entity_get = registry,
      getEntityRanges = ranges\<rparr> block = ''<br/>''"
  by (rule renderBlockContent_empty)

theorem empty_block_only_break_witness:
  "getText emptyCheckable = [] \<and> getType emptyCheckable = CHECKABLE_LIST_ITEM \<and>
   [''k'' \<mapsto> True] (getKey emptyCheckable) = Some True \<and>
   renderBlockContent
     \<lparr>blocks = [emptyCheckable], checkedStateMap = [''k'' \<mapsto> True],
      Entity_get = Map.empty, getEntityRanges = groupedEntityRanges\<rparr> emptyCheckable = ''<br/>''"
proof -
  have h: "getText emptyCheckable = []"
    by (simp add: emptyCheckable_def)
  show ?thesis
    using empty_block_only_break[OF h, of "[emptyCheckable]" "[''k'' \<mapsto> True]" Map.empty
        groupedEntityRanges]
    by (simp add: emptyCheckable_def)
qed

section \<open>Entity data and attributes\<close>

lemma update_fresh: "k \<notin> fst ` set al \<Longrightarrow> AList.update k v al = al @ [(k, v)]"
  by (induction al) auto

lemma getProp_distinct: "distinct (map fst obj) \<Longrightarrow> (k, v) \<in> set obj \<Longrightarrow> getProp obj k = v"
  by (simp add: getProp_def)

lemma getProp_absent: "k \<notin> fst ` set obj \<Longrightarrow> getProp obj k = JUndefined"
  by (simp add: getProp_def map_of_eq_None_iff[THEN iffD2])

text \<open>
  The loop of \<open>dataToAttr\<close> for a table that maps no two fields to one attribute: each
  mapped field of the data adds its attribute at the end.
\<close>

lemma dataToAttr_loop:
  assumes inj: "\<And>k k' a. map_of attrMap k = Some a \<Longrightarrow> map_of attrMap k' = Some a \<Longrightarrow> k = k'"
  shows "distinct ks \<Longrightarrow>
    (\<forall>k \<in> set ks. \<forall>a. map_of attrMap k = Some a \<longrightarrow> a \<notin> fst ` set acc) \<Longrightarrow>
    foldl (\<lambda>attrs dataKey.
             let dataValue = getProp data dataKey
             in if hasOwnProperty attrMap dataKey
                then (case map_of attrMap dataKey of
                        Some attrKey \<Rightarrow> AList.update attrKey dataValue attrs
                      | None \<Rightarrow> attrs)
                else attrs) acc ks =
    acc @ concat (map (\<lambda>k. case map_of attrMap k of
                              Some a \<Rightarrow> [(a, getProp data k)] | None \<Rightarrow> []) ks)"
proof (induction ks arbitrary: acc)
  case Nil
  show ?case by simp
next
  case (Cons k ks)
  show ?case
  proof (cases "map_of attrMap k")
    case None
    then show ?thesis
      using Cons.IH[of acc] Cons.prems by (simp add: hasOwnProperty_def)
  next
    case (Some a)
    have fresh: "a \<notin> fst ` set acc"
      using Cons.prems(2) Some by simp
    have "\<forall>k' \<in> set ks. \<forall>a'. map_of attrMap k' = Some a' \<longrightarrow>
            a' \<notin> fst ` set (acc @ [(a, getProp data k)])"
    proof (intro ballI allI impI)
      fix k' a' assume k': "k' \<in> set ks" and a': "map_of attrMap k' = Some a'"
      have "a' \<noteq> a"
        using inj[OF a', of k] Some k' Cons.prems(1) by auto
      moreover have "a' \<notin> fst ` set acc"
        using Cons.prems(2) k' a' by simp
      ultimately show "a' \<notin> fst ` set (acc @ [(a, getProp data k)])"
        by auto
    qed
    then show ?thesis
      using Cons.IH[of "acc @ [(a, getProp data k)]"] Cons.prems(1) Some
      by (simp add: hasOwnProperty_def update_fresh[OF fresh])
  qed
qed

lemma mapped_keys_distinct:
  assumes inj: "\<And>k k' a. map_of attrMap k = Some a \<Longrightarrow> map_of attrMap k' = Some a \<Longrightarrow> k = k'"
  shows "distinct ks \<Longrightarrow>
    distinct (map fst (concat (map (\<lambda>k. case map_of attrMap k of
                              Some a \<Rightarrow> [(a, f k)] | None \<Rightarrow> []) ks)))"
proof (induction ks)
  case Nil
  show ?case by simp
next
  case (Cons k ks)
  show ?case
  proof (cases "map_of attrMap k")
    case None
    then show ?thesis using Cons by simp
  next
    case (Some a)
    have "a \<notin> fst ` set (concat (map (\<lambda>k. case map_of attrMap k of
                              Some a \<Rightarrow> [(a, f k)] | None \<Rightarrow> []) ks))"
    proof
      assume "a \<in> fst ` set (concat (map (\<lambda>k. case map_of attrMap k of
                              Some a \<Rightarrow> [(a, f k)] | None \<Rightarrow> []) ks))"
      then obtain k' where "k' \<in> set ks" "map_of attrMap k' = Some a"
        by (auto split: option.splits)
      then show False using inj[OF Some, of k'] Cons.prems by auto
    qed
    then show ?thesis using Cons Some by simp
  qed
qed

text \<open>The loop of \<open>stringifyAttrs\<close> on an object.\<close>

lemma stringifyAttrs_loop:
  "foldl (\<lambda>parts attrKey.
            let attrValue = getProp attrs attrKey
            in if notNullish attrValue
               then parts @ ['' '' @ attrKey @ ''=\"'' @ encodeAttr (toString attrValue) @ ''\"'']
               else parts) acc ks =
   acc @ concat (map (\<lambda>k. if notNullish (getProp attrs k)
                           then ['' '' @ k @ ''=\"'' @ encodeAttr (toString (getProp attrs k)) @ ''\"'']
                           else []) ks)"
  by (induction ks arbitrary: acc) (simp_all add: Let_def)

lemma stringifyAttrs_distinct:
  assumes "distinct (map fst attrs)"
  shows "stringifyAttrs (Some attrs) =
     concat (map (\<lambda>(k, v). if notNullish v
                            then '' '' @ k @ ''=\"'' @ encodeAttr (toString v) @ ''\"''
                            else []) attrs)"
proof -
  have "concat (concat (map (\<lambda>k. if P k then [g k] else []) ks)) =
        concat (map (\<lambda>k. if P k then g k else []) ks)"
    for P and g :: "string \<Rightarrow> string" and ks
    by (induction ks) simp_all
  then have "stringifyAttrs (Some attrs) =
     concat (map (\<lambda>k. if notNullish (getProp attrs k)
                        then '' '' @ k @ ''=\"'' @ encodeAttr (toString (getProp attrs k)) @ ''\"''
                        else []) (map fst attrs))"
    by (simp add: stringifyAttrs_loop join_Nil del: map_map)
  also have "\<dots> = concat (map (\<lambda>(k, v). if notNullish v
                            then '' '' @ k @ ''=\"'' @ encodeAttr (toString v) @ ''\"''
                            else []) attrs)"
    using getProp_distinct[OF assms]
    by (auto simp: comp_def intro!: arg_cong[where f = concat] map_cong)
  finally show ?thesis .
qed

lemma link_table_inj:
  "map_of [(''url'', ''href''), (''rel'', ''rel''), (''target'', ''target''),
           (''title'', ''title'')] k = Some a \<Longrightarrow>
   map_of [(''url'', ''href''), (''rel'', ''rel''), (''target'', ''target''),
           (''title'', ''title'')] k' = Some a \<Longrightarrow> k = k'"
  by (auto split: if_splits)

lemma image_table_inj:
  "map_of [(''src'', ''src''), (''alt'', ''alt''), (''data-original-url'', ''href'')] k = Some a \<Longrightarrow>
   map_of [(''src'', ''src''), (''alt'', ''alt''), (''data-original-url'', ''href'')] k' = Some a \<Longrightarrow>
   k = k'"
  by (auto split: if_splits)

lemma linkAttribute_mapped:
  "linkAttribute (k, v) =
     concat (map (\<lambda>(k, v). if notNullish v
                            then '' '' @ k @ ''=\"'' @ encodeAttr (toString v) @ ''\"'' else [])
               (case map_of [(''url'', ''href''), (''rel'', ''rel''), (''target'', ''target''),
                             (''title'', ''title'')] k of
                  Some a \<Rightarrow> [(a, v)] | None \<Rightarrow> []))"
  by (cases v) (simp_all add: linkAttribute_def)

lemma dataToAttr_LINK:
  assumes "distinct (map fst (entity_getData e))"
  shows "stringifyAttrs (Some (dataToAttr LINK e)) = concat (map linkAttribute (entity_getData e))"
proof -
  let ?A = "[(''url'', ''href''), (''rel'', ''rel''), (''target'', ''target''),
             (''title'', ''title'')]"
  let ?data = "entity_getData e"
  let ?h = "\<lambda>k. case map_of ?A k of Some a \<Rightarrow> [(a, getProp ?data k)] | None \<Rightarrow> []"
  let ?phi = "\<lambda>(k, v). if notNullish v
                         then '' '' @ k @ ''=\"'' @ encodeAttr (toString v) @ ''\"'' else []"
  have attrs: "dataToAttr LINK e = concat (map ?h (map fst ?data))"
    using dataToAttr_loop[of ?A "map fst ?data" "[]" ?data, OF link_table_inj assms]
    by (simp add: dataToAttr_def ENTITY_ATTR_MAP_def Let_def)
  have "distinct (map fst (concat (map ?h (map fst ?data))))"
    using mapped_keys_distinct[of ?A "map fst ?data" "getProp ?data", OF link_table_inj assms] .
  then have "stringifyAttrs (Some (dataToAttr LINK e)) =
      concat (map ?phi (concat (map ?h (map fst ?data))))"
    unfolding attrs by (rule stringifyAttrs_distinct)
  also have "\<dots> = concat (map (\<lambda>k. concat (map ?phi (?h k))) (map fst ?data))"
    by (rule concat_map_concat_map)
  also have "\<dots> = concat (map linkAttribute ?data)"
  proof -
    have field: "concat (map ?phi (?h k)) = linkAttribute (k, v)"
      if "(k, v) \<in> set ?data" for k v
      by (simp only: getProp_distinct[OF assms that] linkAttribute_mapped[of k v])
    have "map (\<lambda>k. concat (map ?phi (?h k))) (map fst ?data) = map linkAttribute ?data"
      unfolding map_map comp_def
    proof (rule map_cong[OF refl])
      fix x assume "x \<in> set ?data"
      then show "concat (map ?phi (?h (fst x))) = linkAttribute x"
        using field[of "fst x" "snd x"] by simp
    qed
    then show ?thesis
      by (rule arg_cong)
  qed
  finally show ?thesis .
qed

lemma renderEntityPiece_entity:
  assumes "k \<noteq> []" and "Entity_get gen k = Some e"
  shows "renderEntityPiece gen block (Some k, pieces) =
     (let content = concat (map (renderStylePiece (checkedStateMap gen) block) pieces)
      in if entity_getType e = LINK then
           ''<a'' @ stringifyAttrs (Some (dataToAttr LINK e)) @ ''>'' @ content @ ''</a>''
         else if entity_getType e = IMAGE then
           ''<a href=\"'' @ toString (getProp (dataToAttr IMAGE e) ''href'') @
           ''\"><img src=\"'' @ toString (getProp (dataToAttr IMAGE e) ''src'') @
           ''\" alt=\"'' @ toString (getProp (dataToAttr IMAGE e) ''alt'') @ ''\" /></a>''
         else content)"
  using assms by (simp add: renderEntityPiece_def Let_def join_Nil)

lemma linkAttribute_nothing:
  "linkAttribute (name, JNull) = []" "linkAttribute (name, JUndefined) = []"
  "name \<notin> {''url'', ''rel'', ''target'', ''title''} \<Longrightarrow> linkAttribute (name, v) = []"
  by (simp_all add: linkAttribute_def split: option.splits)

text \<open>
  Claim C8. The anchor of a run with a link entity lists, in the order of the data
  fields, what each field adds: the mapped attribute with its escaped value for a mapped
  field whose value is a string, and nothing, not even the attribute name, for a field
  whose value is \<open>null\<close> or \<open>undefined\<close> and for a field the table does not map. A field
  that is absent from the data is not listed at all. The rendering is a string in every
  case; in particular the data \<open>{url: "https://x", rel: null}\<close> gives
  \<open><a href="https://x">\<close> around the content.
\<close>

theorem link_attributes_omitted:
  "(k \<noteq> [] \<and> Entity_get gen k = Some e \<and> entity_getType e = LINK \<and>
    distinct (map fst (entity_getData e)) \<longrightarrow>
      renderEntityPiece gen block (Some k, pieces) =
        ''<a'' @ concat (map linkAttribute (entity_getData e)) @ ''>'' @
        concat (map (renderStylePiece (checkedStateMap gen) block) pieces) @ ''</a>'') \<and>
   linkAttribute (name, JNull) = [] \<and> linkAttribute (name, JUndefined) = [] \<and>
   (name \<notin> {''url'', ''rel'', ''target'', ''title''} \<longrightarrow> linkAttribute (name, v) = []) \<and>
   (k \<noteq> [] \<and> Entity_get gen k = Some linkEntity \<longrightarrow>
      renderEntityPiece gen block (Some k, pieces) =
        ''<a href=\"https://x\">'' @
        concat (map (renderStylePiece (checkedStateMap gen) block) pieces) @ ''</a>'')"
proof -
  have general: "renderEntityPiece gen block (Some k, pieces) =
        ''<a'' @ concat (map linkAttribute (entity_getData e')) @ ''>'' @
        concat (map (renderStylePiece (checkedStateMap gen) block) pieces) @ ''</a>''"
    if "k \<noteq> []" "Entity_get gen k = Some e'" "entity_getType e' = LINK"
      "distinct (map fst (entity_getData e'))" for e'
    using that
    by (simp add: renderEntityPiece_entity dataToAttr_LINK Let_def del: stringifyAttrs.simps)
  have d: "entity_getType linkEntity = LINK" "distinct (map fst (entity_getData linkEntity))"
    by (simp_all add: linkEntity_def)
  have x: "concat (map linkAttribute (entity_getData linkEntity)) = '' href=\"https://x\"''"
    by (simp add: linkEntity_def linkAttribute_def encodeAttr_chars encodeAttrChar_def
        DQUOTE_def)
  have example: "renderEntityPiece gen block (Some k, pieces) =
        ''<a href=\"https://x\">'' @
        concat (map (renderStylePiece (checkedStateMap gen) block) pieces) @ ''</a>''"
    if "k \<noteq> []" "Entity_get gen k = Some linkEntity"
    using general[OF that d] x by simp
  show ?thesis
    using general[of e] example linkAttribute_nothing[of name] by blast
qed

theorem link_attributes_omitted_witness:
  "''1'' \<noteq> [] \<and> Entity_get (entityGenerator linkEntity) ''1'' = Some linkEntity \<and>
   entity_getType linkEntity = LINK \<and> distinct (map fst (entity_getData linkEntity)) \<and>
   ''class'' \<notin> {''url'', ''rel'', ''target'', ''title''} \<and>
   linkAttribute (''class'', JStr ''c'') = [] \<and>
   linkAttribute (''rel'', JNull) = [] \<and>
   renderEntityPiece (entityGenerator linkEntity) entityParagraph (Some ''1'', [(''x'', [])]) =
     ''<a href=\"https://x\">x</a>''"
proof -
  have h: "''1'' \<noteq> []" "Entity_get (entityGenerator linkEntity) ''1'' = Some linkEntity"
    "entity_getType linkEntity = LINK" "distinct (map fst (entity_getData linkEntity))"
    "''class'' \<notin> {''url'', ''rel'', ''target'', ''title''}"
    by (simp_all add: entityGenerator_def linkEntity_def)
  have c: "concat (map (renderStylePiece (checkedStateMap (entityGenerator linkEntity))
                   entityParagraph) [(''x'', [])]) = ''x''"
    by (simp add: renderStylePiece_def Let_def COLOR_STYLE_MAP_def entityParagraph_def
        encodeContent_chars encodeChar_def NBSP_def NEWLINE_def
        BOLD_def UNDERLINE_def ITALIC_def STRIKETHROUGH_def CODE_def)
  note T = link_attributes_omitted[of "''1''" "entityGenerator linkEntity" linkEntity
      entityParagraph "[(''x'', [])]" "''class''" "JStr ''c''"]
  have r: "renderEntityPiece (entityGenerator linkEntity) entityParagraph
             (Some ''1'', [(''x'', [])]) = ''<a href=\"https://x\">x</a>''"
    using T h(1,2) c by simp
  have n: "linkAttribute (''class'', JStr ''c'') = []"
    using T h(5) by blast
  have n': "linkAttribute (''rel'', JNull) = []"
    using link_attributes_omitted[of "''1''" "entityGenerator linkEntity" linkEntity
      entityParagraph "[(''x'', [])]" "''rel''" "JStr ''c''"] by blast
  show ?thesis
    using h r n n' by blast
qed

section \<open>Images\<close>

text \<open>
  What \<open>dataToAttr\<close> leaves under an attribute: the value of the one field mapped to it.
\<close>

lemma dataToAttr_loop_lookup:
  assumes inj: "\<And>k k' a. map_of attrMap k = Some a \<Longrightarrow> map_of attrMap k' = Some a \<Longrightarrow> k = k'"
    and k0: "map_of attrMap k0 = Some a"
  shows "map_of (foldl (\<lambda>attrs dataKey.
             let dataValue = getProp data dataKey
             in if hasOwnProperty attrMap dataKey
                then (case map_of attrMap dataKey of
                        Some attrKey \<Rightarrow> AList.update attrKey dataValue attrs
                      | None \<Rightarrow> attrs)
                else attrs) acc ks) a =
         (if k0 \<in> set ks then Some (getProp data k0) else map_of acc a)"
proof (induction ks arbitrary: acc)
  case Nil
  show ?case by simp
next
  case (Cons k ks)
  show ?case
  proof (cases "map_of attrMap k")
    case None
    then have "k \<noteq> k0" using k0 by auto
    then show ?thesis using None Cons.IH[of acc] by (simp add: hasOwnProperty_def)
  next
    case (Some a')
    show ?thesis
    proof (cases "k = k0")
      case True
      then have "a' = a" using Some k0 by simp
      then show ?thesis
        using True Some Cons.IH[of "AList.update a (getProp data k0) acc"]
        by (simp add: hasOwnProperty_def update_conv')
    next
      case False
      then have "a' \<noteq> a" using inj[OF Some, of k0] k0 by auto
      then show ?thesis
        using False Some Cons.IH[of "AList.update a' (getProp data k) acc"]
        by (simp add: hasOwnProperty_def update_conv')
    qed
  qed
qed

lemma dataToAttr_IMAGE:
  "getProp (dataToAttr IMAGE e) ''href'' = getProp (entity_getData e) ''data-original-url''"
  "getProp (dataToAttr IMAGE e) ''src'' = getProp (entity_getData e) ''src''"
  "getProp (dataToAttr IMAGE e) ''alt'' = getProp (entity_getData e) ''alt''"
proof -
  let ?A = "[(''src'', ''src''), (''alt'', ''alt''), (''data-original-url'', ''href'')]"
  have "getProp (dataToAttr IMAGE e) a = getProp (entity_getData e) k0"
    if "map_of ?A k0 = Some a" for k0 a
    using dataToAttr_loop_lookup[of ?A k0 a "entity_getData e" "[]" "map fst (entity_getData e)",
        OF image_table_inj that]
    by (auto simp: dataToAttr_def ENTITY_ATTR_MAP_def Let_def getProp_def
        map_of_eq_None_iff[THEN iffD2] simp del: map_of.simps)
  from this[of "''data-original-url''" "''href''"] this[of "''src''" "''src''"]
    this[of "''alt''" "''alt''"]
  show "getProp (dataToAttr IMAGE e) ''href'' = getProp (entity_getData e) ''data-original-url''"
    "getProp (dataToAttr IMAGE e) ''src'' = getProp (entity_getData e) ''src''"
    "getProp (dataToAttr IMAGE e) ''alt'' = getProp (entity_getData e) ''alt''"
    by simp_all
qed

text \<open>
  Claim C10. A run with an image entity renders as the anchor around the image whose
  \<open>href\<close>, \<open>src\<close> and \<open>alt\<close> are the data fields \<open>data-original-url\<close>, \<open>src\<close> and \<open>alt\<close>
  as a template literal prints them, whatever the style pieces of the run are; a field
  the data lacks is printed as the text \<open>undefined\<close>.
\<close>

theorem image_undefined_attributes:
  "(k \<noteq> [] \<and> Entity_get gen k = Some e \<and> entity_getType e = IMAGE \<longrightarrow>
      renderEntityPiece gen block (Some k, pieces) =
        ''<a href=\"'' @ toString (getProp (entity_getData e) ''data-original-url'') @
        ''\"><img src=\"'' @ toString (getProp (entity_getData e) ''src'') @
        ''\" alt=\"'' @ toString (getProp (entity_getData e) ''alt'') @ ''\" /></a>'') \<and>
   (name \<notin> fst ` set (entity_getData e) \<longrightarrow>
      toString (getProp (entity_getData e) name) = ''undefined'')"
  by (simp add: renderEntityPiece_entity dataToAttr_IMAGE Let_def getProp_absent)

theorem image_undefined_attributes_witness:
  "''1'' \<noteq> [] \<and> Entity_get (entityGenerator bareImage) ''1'' = Some bareImage \<and>
   entity_getType bareImage = IMAGE \<and>
   ''src'' \<notin> fst ` set (entity_getData bareImage) \<and>
   renderEntityPiece (entityGenerator bareImage) entityParagraph
     (Some ''1'', [(''x'', [BOLD])]) =
     ''<a href=\"undefined\"><img src=\"undefined\" alt=\"undefined\" /></a>''"
proof -
  have h: "''1'' \<noteq> []" "Entity_get (entityGenerator bareImage) ''1'' = Some bareImage"
    "entity_getType bareImage = IMAGE"
    and a: "name \<notin> fst ` set (entity_getData bareImage)" for name
    by (simp_all add: entityGenerator_def bareImage_def)
  have u: "toString (getProp (entity_getData bareImage) name) = ''undefined''" for name
    using image_undefined_attributes[of "''1''" "entityGenerator bareImage" bareImage
        entityParagraph "[(''x'', [BOLD])]" name] a
    by blast
  have "renderEntityPiece (entityGenerator bareImage) entityParagraph
     (Some ''1'', [(''x'', [BOLD])]) =
     ''<a href=\"undefined\"><img src=\"undefined\" alt=\"undefined\" /></a>''"
    using image_undefined_attributes[of "''1''" "entityGenerator bareImage" bareImage
        entityParagraph "[(''x'', [BOLD])]" "''src''"] h u
    by simp
  then show ?thesis
    using h a by blast
qed

text \<open>
  Claim C5 fails on the code. The values of an image entity are put between the quotes
  as they are: they do not pass through \<open>encodeAttr\<close>, although the attribute string
  \<open>stringifyAttrs\<close> builds from them, which is escaped, is computed on the same path and
  a link entity uses it. An image source with a double quote ends the attribute early.
\<close>

theorem image_attributes_not_escaped:
  "renderEntityPiece (entityGenerator quoteImage) entityParagraph (Some ''1'', [(''x'', [])]) =
     ''<a href=\"u\"><img src=\"a\"b\" alt=\"x\" /></a>'' \<and>
   encodeAttr ''a\"b'' = ''a&quot;b'' \<and>
   stringifyAttrs (Some (dataToAttr IMAGE quoteImage)) =
     '' src=\"a&quot;b\" alt=\"x\" href=\"u\"'' \<and>
   generate (entityGenerator quoteImage) =
     Inr ''<div><a href=\"u\"><img src=\"a\"b\" alt=\"x\" /></a></div>''"
  by code_simp

section \<open>Fragments that are no wrapper fragments\<close>

lemma noWrapperStart_append:
  "noWrapperStart a \<Longrightarrow> noWrapperStart b \<Longrightarrow> noWrapperStart (a @ b)"
proof (induction a rule: noWrapperStart.induct)
  case 1
  then show ?case by simp
next
  case (2 c)
  then show ?case by (cases b) simp_all
next
  case (3 c d cs)
  then show ?case by simp
qed

lemma noWrapperStart_concat:
  "(\<And>x. x \<in> set xs \<Longrightarrow> noWrapperStart x) \<Longrightarrow> noWrapperStart (concat xs)"
  by (induction xs) (simp_all add: noWrapperStart_append)

lemma noWrapperStart_encodeContent: "noWrapperStart (encodeContent s)"
proof -
  have "noWrapperStart (encodeChar c)" for c
    by (simp add: encodeChar_def)
  then show ?thesis
    unfolding encodeContent_chars by (intro noWrapperStart_concat) auto
qed

lemma noWrapperStart_renderStylePiece: "noWrapperStart (renderStylePiece checked block piece)"
  by (simp add: renderStylePiece_def Let_def noWrapperStart_encodeContent)

lemma noWrapperStart_renderEntityPiece: "noWrapperStart (renderEntityPiece gen block piece)"
proof -
  have "noWrapperStart (concat (map (renderStylePiece (checkedStateMap gen) block) (snd piece)))"
    by (intro noWrapperStart_concat) (auto simp: noWrapperStart_renderStylePiece)
  then show ?thesis
    by (simp add: renderEntityPiece_def Let_def join_Nil split: option.splits)
qed

lemma noWrapperStart_renderBlockContent: "noWrapperStart (renderBlockContent gen block)"
proof (cases "getText block = []")
  case True
  then show ?thesis by (simp add: renderBlockContent_unfold BREAK_def)
next
  case False
  have "noWrapperStart (concat (map (renderEntityPiece gen block) ps))" for ps
    by (intro noWrapperStart_concat) (auto simp: noWrapperStart_renderEntityPiece)
  then show ?thesis using False by (simp add: renderBlockContent_unfold)
qed

lemma noWrapperStart_indent: "noWrapperStart (concat (replicate n INDENT))"
  by (cases n) (simp_all add: INDENT_def)

text \<open>A fragment that is none of the four wrapper fragments leaves the stack alone.\<close>

lemma wrapperScan_skip:
  "f \<notin> {''<ul>'' @ [NEWLINE], ''<ol>'' @ [NEWLINE], ''</ul>'' @ [NEWLINE], ''</ol>'' @ [NEWLINE]}
   \<Longrightarrow> wrapperScan S (f # fs) = wrapperScan S fs"
  by simp

lemma noWrapperStart_skip: "noWrapperStart f \<Longrightarrow> wrapperScan S (f # fs) = wrapperScan S fs"
proof -
  assume "noWrapperStart f"
  then have "f \<notin> {''<ul>'' @ [NEWLINE], ''<ol>'' @ [NEWLINE], ''</ul>'' @ [NEWLINE],
                  ''</ol>'' @ [NEWLINE]}"
    by auto
  then show ?thesis by (rule wrapperScan_skip)
qed

lemma wrapperScan_append:
  "wrapperScan S (xs @ ys) =
     (case wrapperScan S xs of None \<Rightarrow> None | Some S' \<Rightarrow> wrapperScan S' ys)"
  by (induction xs arbitrary: S) (auto split: list.splits)

lemma wrapperScan_open:
  "wrapperScan S ([CHR ''<'', CHR ''u'', CHR ''l'', CHR ''>'', NEWLINE] # fs) =
     wrapperScan (''ul'' # S) fs"
  "wrapperScan S ([CHR ''<'', CHR ''o'', CHR ''l'', CHR ''>'', NEWLINE] # fs) =
     wrapperScan (''ol'' # S) fs"
  by (simp_all add: NEWLINE_def)

lemma wrapperScan_close:
  "wrapperScan (''ul'' # S) ([CHR ''<'', CHR ''/'', CHR ''u'', CHR ''l'', CHR ''>'', NEWLINE] # fs) =
     wrapperScan S fs"
  "wrapperScan (''ol'' # S) ([CHR ''<'', CHR ''/'', CHR ''o'', CHR ''l'', CHR ''>'', NEWLINE] # fs) =
     wrapperScan S fs"
  by (simp_all add: NEWLINE_def)

section \<open>Balanced steps\<close>

lemma balancedStep_refl: "listWrapper (wrapperTag st) \<Longrightarrow> balancedStep st st"
  by (simp add: balancedStep_def)

lemma balancedStep_trans:
  assumes "balancedStep st st'" and "balancedStep st' st''"
  shows "balancedStep st st''"
proof -
  from assms(1) obtain new where n: "outputArray st' = outputArray st @ new"
    "\<And>S. wrapperScan (openStack (wrapperTag st) @ S) new = Some (openStack (wrapperTag st') @ S)"
    "baseIndent st' = baseIndent st"
    by (auto simp: balancedStep_def)
  from assms(2) obtain new' where n': "outputArray st'' = outputArray st' @ new'"
    "\<And>S. wrapperScan (openStack (wrapperTag st') @ S) new' =
          Some (openStack (wrapperTag st'') @ S)"
    "baseIndent st'' = baseIndent st'" "listWrapper (wrapperTag st'')"
    by (auto simp: balancedStep_def)
  have "outputArray st'' = outputArray st @ (new @ new')"
    using n(1) n'(1) by simp
  moreover have "wrapperScan (openStack (wrapperTag st) @ S) (new @ new') =
      Some (openStack (wrapperTag st'') @ S)" for S
    by (simp add: wrapperScan_append n(2) n'(2))
  ultimately show ?thesis
    unfolding balancedStep_def using n(3) n'(3,4) by metis
qed

lemma balancedStep_push:
  assumes "f \<notin> {''<ul>'' @ [NEWLINE], ''<ol>'' @ [NEWLINE], ''</ul>'' @ [NEWLINE],
                 ''</ol>'' @ [NEWLINE]}"
    and "listWrapper (wrapperTag st)"
  shows "balancedStep st (push f st)"
proof -
  have "wrapperScan (openStack (wrapperTag st) @ S) [f] = Some (openStack (wrapperTag st) @ S)"
    for S
    using wrapperScan_skip[OF assms(1)] by simp
  then show ?thesis
    using assms(2) by (simp add: balancedStep_def push_def baseIndent_def)
qed

lemma balancedStep_push_plain:
  "noWrapperStart f \<Longrightarrow> listWrapper (wrapperTag st) \<Longrightarrow> balancedStep st (push f st)"
  by (rule balancedStep_push) auto

lemma balancedStep_cursor:
  "listWrapper (wrapperTag st) \<Longrightarrow> balancedStep st (st\<lparr>currentBlock := n\<rparr>)"
  by (simp add: balancedStep_def baseIndent_def)

lemma balancedStep_listWrapper: "balancedStep st st' \<Longrightarrow> listWrapper (wrapperTag st')"
  by (simp add: balancedStep_def)

lemma balancedStep_base: "balancedStep st st' \<Longrightarrow> baseIndent st' = baseIndent st"
  by (simp add: balancedStep_def)

lemma indent_ok: "0 \<le> indentLevel st \<Longrightarrow>
    indent st = Inr (push (concat (replicate (nat (indentLevel st)) INDENT)) st)"
  by (simp add: indent_def)

lemma baseIndent_level: "0 \<le> baseIndent st \<Longrightarrow> 0 \<le> indentLevel st"
  by (simp add: baseIndent_def split: if_splits)

lemma indent_balanced:
  assumes "listWrapper (wrapperTag st)" and "0 \<le> baseIndent st"
  shows "\<exists>st'. indent st = Inr st' \<and> balancedStep st st' \<and> currentBlock st' = currentBlock st \<and>
            wrapperTag st' = wrapperTag st"
  using assms balancedStep_push_plain[OF noWrapperStart_indent assms(1)]
  by (simp add: indent_ok[OF baseIndent_level] push_def)

lemma start_tag_no_wrapper:
  "''<'' @ t @ ''>'' \<notin> {''<ul>'' @ [NEWLINE], ''<ol>'' @ [NEWLINE], ''</ul>'' @ [NEWLINE],
                         ''</ol>'' @ [NEWLINE]}"
proof -
  have ne: "''<'' @ t @ ''>'' \<noteq> w @ [NEWLINE]" for w
  proof
    assume "''<'' @ t @ ''>'' = w @ [NEWLINE]"
    then have "last (''<'' @ t @ ''>'') = last (w @ [NEWLINE])"
      by (rule arg_cong)
    then show False
      by (simp add: NEWLINE_def)
  qed
  show ?thesis
    using ne[of "''<ul>''"] ne[of "''<ol>''"] ne[of "''</ul>''"] ne[of "''</ol>''"]
    by simp
qed

lemma writeStartTag_balanced:
  "listWrapper (wrapperTag st) \<Longrightarrow> balancedStep st (writeStartTag blockType st)"
proof -
  have "listWrapper (wrapperTag s) \<Longrightarrow>
        balancedStep s (foldl (\<lambda>s tag. push (''<'' @ tag @ ''>'') s) s tags)" for s tags
  proof (induction tags arbitrary: s)
    case Nil
    then show ?case by (simp add: balancedStep_refl)
  next
    case (Cons t ts)
    have one: "balancedStep s (push (''<'' @ t @ ''>'') s)"
      by (rule balancedStep_push[OF start_tag_no_wrapper Cons.prems])
    have "listWrapper (wrapperTag (push (''<'' @ t @ ''>'') s))"
      using Cons.prems by (simp add: push_def)
    from balancedStep_trans[OF one Cons.IH[OF this]]
    show ?case by simp
  qed
  then show "listWrapper (wrapperTag st) \<Longrightarrow> balancedStep st (writeStartTag blockType st)"
    by (simp add: writeStartTag_def)
qed

lemma writeEndTag_balanced:
  "listWrapper (wrapperTag st) \<Longrightarrow> balancedStep st (writeEndTag blockType st)"
proof -
  assume w: "listWrapper (wrapperTag st)"
  show ?thesis
    by (cases blockType)
      (simp_all add: writeEndTag_def Let_def join_Nil balancedStep_push[OF _ w] NEWLINE_def)
qed

lemma wrapperTag_frame [simp]:
  "wrapperTag (push f st) = wrapperTag st"
  "wrapperTag (writeStartTag blockType st) = wrapperTag st"
  "wrapperTag (writeEndTag blockType st) = wrapperTag st"
  "indentLevel (push f st) = indentLevel st"
  "indentLevel (writeStartTag blockType st) = indentLevel st"
  "indentLevel (writeEndTag blockType st) = indentLevel st"
proof -
  have "wrapperTag (foldl (\<lambda>s tag. push (''<'' @ tag @ ''>'') s) st tags) = wrapperTag st \<and>
        indentLevel (foldl (\<lambda>s tag. push (''<'' @ tag @ ''>'') s) st tags) = indentLevel st"
    for tags
    by (induction tags arbitrary: st) (simp_all add: push_def)
  then show "wrapperTag (push f st) = wrapperTag st"
    "wrapperTag (writeStartTag blockType st) = wrapperTag st"
    "wrapperTag (writeEndTag blockType st) = wrapperTag st"
    "indentLevel (push f st) = indentLevel st"
    "indentLevel (writeStartTag blockType st) = indentLevel st"
    "indentLevel (writeEndTag blockType st) = indentLevel st"
    by (simp_all add: push_def writeStartTag_def writeEndTag_def Let_def)
qed

lemma listWrapper_getWrapperTag: "listWrapper (getWrapperTag blockType)"
  by (cases blockType) (simp_all add: listWrapper_def)

text \<open>
  What the switch of the wrapper appends: the closing of the wrapper that is open, then
  the opening of the wrapper that is needed.
\<close>

lemma switchWrapperTag_fragments:
  assumes "listWrapper (wrapperTag st)" and "listWrapper new" and "0 \<le> baseIndent st"
    and "wrapperTag st \<noteq> new"
  shows "switchWrapperTag new st =
     Inr (st\<lparr>outputArray := outputArray st @
              (case wrapperTag st of
                 None \<Rightarrow> []
               | Some w \<Rightarrow> [concat (replicate (nat (baseIndent st)) INDENT),
                            ''</'' @ w @ ''>'' @ [NEWLINE]]) @
              (case new of
                 None \<Rightarrow> []
               | Some w' \<Rightarrow> [concat (replicate (nat (baseIndent st)) INDENT),
                             ''<'' @ w' @ ''>'' @ [NEWLINE]]),
            indentLevel := baseIndent st + (if new = None then 0 else 1),
            wrapperTag := new\<rparr>)"
  using assms
  by (auto simp: listWrapper_def switchWrapperTag_def closeWrapperTag_def openWrapperTag_def
      indent_def push_def baseIndent_def Let_def)

lemma switchWrapperTag_balanced:
  assumes "listWrapper (wrapperTag st)" and "listWrapper new" and "0 \<le> baseIndent st"
  shows "\<exists>st'. switchWrapperTag new st = Inr st' \<and> balancedStep st st' \<and>
            wrapperTag st' = new \<and> currentBlock st' = currentBlock st"
proof (cases "wrapperTag st = new")
  case True
  then show ?thesis
    using assms(1) by (simp add: switchWrapperTag_def balancedStep_refl)
next
  case False
  note f = switchWrapperTag_fragments[OF assms False]
  have "balancedStep st (st\<lparr>outputArray := outputArray st @
              (case wrapperTag st of
                 None \<Rightarrow> []
               | Some w \<Rightarrow> [concat (replicate (nat (baseIndent st)) INDENT),
                            ''</'' @ w @ ''>'' @ [NEWLINE]]) @
              (case new of
                 None \<Rightarrow> []
               | Some w' \<Rightarrow> [concat (replicate (nat (baseIndent st)) INDENT),
                             ''<'' @ w' @ ''>'' @ [NEWLINE]]),
            indentLevel := baseIndent st + (if new = None then 0 else 1),
            wrapperTag := new\<rparr>)"
    using assms(1,2)
    by (auto simp: balancedStep_def listWrapper_def baseIndent_def
        noWrapperStart_skip[OF noWrapperStart_indent] wrapperScan_open wrapperScan_close
        simp del: wrapperScan.simps(2))
  then show ?thesis
    unfolding f by simp
qed

lemma closeWrapperTag_balanced:
  assumes "listWrapper (wrapperTag st)" and "0 \<le> baseIndent st"
  shows "\<exists>st' new. closeWrapperTag st = Inr st' \<and> outputArray st' = outputArray st @ new \<and>
            wrapperTag st' = None \<and> indentLevel st' = baseIndent st \<and>
            (\<forall>S. wrapperScan (openStack (wrapperTag st) @ S) new = Some S)"
  using assms
  by (auto simp: listWrapper_def closeWrapperTag_def indent_def push_def baseIndent_def Let_def
      noWrapperStart_skip[OF noWrapperStart_indent] wrapperScan_close
      simp del: wrapperScan.simps(2))

section \<open>The traversal is balanced and raises nothing\<close>

lemma traversal_balanced:
  "currentBlock st < length (blocks gen) \<longrightarrow> listWrapper (wrapperTag st) \<longrightarrow>
   0 \<le> baseIndent st \<longrightarrow>
     (\<exists>st1 st'. switchWrapperTag (getWrapperTag (getType (blocks gen ! currentBlock st))) st =
                  Inr st1 \<and>
        processBlock gen st = Inr st' \<and> balancedStep st1 st' \<and> balancedStep st st' \<and>
        wrapperTag st' = getWrapperTag (getType (blocks gen ! currentBlock st)))"
  "listWrapper (wrapperTag st2) \<longrightarrow> 0 \<le> baseIndent st2 \<longrightarrow>
     (\<exists>st' new. processBlocksAtDepth gen2 d st2 = Inr st' \<and>
        outputArray st' = outputArray st2 @ new \<and> wrapperTag st' = None \<and>
        indentLevel st' = baseIndent st2 \<and>
        (\<forall>S. wrapperScan (openStack (wrapperTag st2) @ S) new = Some S))"
proof (induction gen st and gen2 d st2 rule: processBlock_processBlocksAtDepth.induct)
  case (1 gen st)
  show ?case
  proof (intro impI)
    assume c: "currentBlock st < length (blocks gen)"
      and w: "listWrapper (wrapperTag st)" and b0: "0 \<le> baseIndent st"
    define block where "block = blocks gen ! currentBlock st"
    have b: "blockAt gen (currentBlock st) = Some block"
      using c by (simp add: blockAt_def block_def)
    obtain st1 where s1: "switchWrapperTag (getWrapperTag (getType block)) st = Inr st1"
      and bs1: "balancedStep st st1" and w1: "wrapperTag st1 = getWrapperTag (getType block)"
      using switchWrapperTag_balanced[OF w listWrapper_getWrapperTag b0] by blast
    have lw1: "listWrapper (wrapperTag st1)" and base1: "0 \<le> baseIndent st1"
      using bs1 b0 by (simp_all add: balancedStep_def)
    obtain st2 where s2: "indent st1 = Inr st2" and bs2: "balancedStep st1 st2"
      and w2: "wrapperTag st2 = wrapperTag st1"
      using indent_balanced[OF lw1 base1] by blast
    have lw2: "listWrapper (wrapperTag st2)"
      using lw1 w2 by simp
    define st4 where "st4 = push (renderBlockContent gen block) (writeStartTag (getType block) st2)"
    have "balancedStep (writeStartTag (getType block) st2) st4"
      unfolding st4_def
      by (rule balancedStep_push_plain[OF noWrapperStart_renderBlockContent]) (simp add: lw2)
    then have bs24: "balancedStep st2 st4"
      by (rule balancedStep_trans[OF writeStartTag_balanced[OF lw2]])
    have bs14: "balancedStep st1 st4"
      by (rule balancedStep_trans[OF bs2 bs24])
    have w4: "wrapperTag st4 = getWrapperTag (getType block)"
      by (simp add: st4_def w2 w1)
    have lw4: "listWrapper (wrapperTag st4)"
      using bs14 by (rule balancedStep_listWrapper)
    have base4: "0 \<le> baseIndent st4"
      using balancedStep_base[OF bs14] base1 by simp
    define nest where "nest \<longleftrightarrow> canHaveDepth (getType block) \<and> getNextBlock gen st4 \<noteq> None \<and>
                  getDepth (the (getNextBlock gen st4)) = getDepth block + 1"
    define st6 where "st6 = (push [NEWLINE] st4)\<lparr>wrapperTag := None,
          indentLevel := indentLevel (push [NEWLINE] st4) + 1,
          currentBlock := currentBlock (push [NEWLINE] st4) + 1\<rparr>"
    note unfold = processBlock_unfold[OF b s1 s2 st4_def nest_def st6_def]
    have "\<exists>st'. processBlock gen st = Inr st' \<and> balancedStep st4 st' \<and>
             wrapperTag st' = wrapperTag st4"
    proof (cases nest)
      case False
      have "balancedStep st4 (st4\<lparr>currentBlock := currentBlock st4 + 1\<rparr>)"
        by (rule balancedStep_cursor[OF lw4])
      moreover have "balancedStep (st4\<lparr>currentBlock := currentBlock st4 + 1\<rparr>)
          (writeEndTag (getType block) (st4\<lparr>currentBlock := currentBlock st4 + 1\<rparr>))"
        by (rule writeEndTag_balanced) (simp add: lw4)
      ultimately have "balancedStep st4
          (writeEndTag (getType block) (st4\<lparr>currentBlock := currentBlock st4 + 1\<rparr>))"
        by (rule balancedStep_trans)
      then show ?thesis
        using False unfold by simp
    next
      case True
      have "listWrapper (wrapperTag st6)" and base6: "baseIndent st6 = indentLevel st4 + 1"
        by (simp_all add: st6_def listWrapper_def baseIndent_def)
      moreover have "0 \<le> indentLevel st4"
        using base4 by (rule baseIndent_level)
      ultimately obtain st7 new7 where
        s7: "processBlocksAtDepth gen (getDepth (the (getNextBlock gen st4))) st6 = Inr st7"
        and o7: "outputArray st7 = outputArray st6 @ new7"
        and w7: "wrapperTag st7 = None" and i7: "indentLevel st7 = baseIndent st6"
        and sc7: "\<And>S. wrapperScan (openStack (wrapperTag st6) @ S) new7 = Some S"
        using "1.IH"[OF b refl refl s1 s2 refl st4_def refl True[unfolded nest_def] refl refl
            st6_def]
        by auto
      define st8 where "st8 = st7\<lparr>wrapperTag := wrapperTag (push [NEWLINE] st4),
          indentLevel := indentLevel st7 - 1\<rparr>"
      have "outputArray st8 = outputArray st4 @ ([NEWLINE] # new7)"
        by (simp add: st8_def o7 st6_def push_def)
      moreover have "wrapperScan (openStack (wrapperTag st4) @ S) ([NEWLINE] # new7) =
          Some (openStack (wrapperTag st8) @ S)" for S
        using sc7[of "openStack (wrapperTag st4) @ S"]
        by (simp add: noWrapperStart_skip st8_def st6_def NEWLINE_def
            del: wrapperScan.simps(2))
      moreover have "baseIndent st8 = baseIndent st4"
      proof -
        have "indentLevel st7 = indentLevel st4 + 1"
          using i7 base6 by simp
        then show ?thesis
          by (simp add: baseIndent_def st8_def)
      qed
      moreover have "listWrapper (wrapperTag st8)"
        using lw4 by (simp add: st8_def)
      ultimately have bs48: "balancedStep st4 st8"
        unfolding balancedStep_def by blast
      have lw8: "listWrapper (wrapperTag st8)" and base8: "0 \<le> baseIndent st8"
        using bs48 base4 by (simp_all add: balancedStep_def)
      obtain st9 where s9: "indent st8 = Inr st9" and bs9: "balancedStep st8 st9"
        and w9: "wrapperTag st9 = wrapperTag st8"
        using indent_balanced[OF lw8 base8] by blast
      have "balancedStep st9 (writeEndTag (getType block) st9)"
        by (rule writeEndTag_balanced) (simp add: w9 lw8)
      then have "balancedStep st4 (writeEndTag (getType block) st9)"
        using balancedStep_trans[OF bs48] balancedStep_trans[OF bs9] by blast
      moreover have "processBlock gen st = Inr (writeEndTag (getType block) st9)"
        using True unfold s7 s9 by (simp add: st8_def)
      moreover have "wrapperTag (writeEndTag (getType block) st9) = wrapperTag st4"
        by (simp add: w9 st8_def)
      ultimately show ?thesis
        by blast
    qed
    then obtain st' where p: "processBlock gen st = Inr st'" and bs: "balancedStep st4 st'"
      and w': "wrapperTag st' = wrapperTag st4"
      by blast
    have a: "balancedStep st1 st'"
      by (rule balancedStep_trans[OF bs14 bs])
    have a': "balancedStep st st'"
      by (rule balancedStep_trans[OF bs1 a])
    show "\<exists>st1 st'.
        switchWrapperTag (getWrapperTag (getType (blocks gen ! currentBlock st))) st = Inr st1 \<and>
        processBlock gen st = Inr st' \<and> balancedStep st1 st' \<and> balancedStep st st' \<and>
        wrapperTag st' = getWrapperTag (getType (blocks gen ! currentBlock st))"
    proof (intro exI conjI)
      show "switchWrapperTag (getWrapperTag (getType (blocks gen ! currentBlock st))) st = Inr st1"
        using s1 by (simp add: block_def)
      show "processBlock gen st = Inr st'"
        by (rule p)
      show "balancedStep st1 st'"
        by (rule a)
      show "balancedStep st st'"
        by (rule a')
      show "wrapperTag st' = getWrapperTag (getType (blocks gen ! currentBlock st))"
        using w' w4 by (simp add: block_def)
    qed
  qed
next
  case (2 gen depth st)
  show ?case
  proof (intro impI)
    assume w: "listWrapper (wrapperTag st)" and b0: "0 \<le> baseIndent st"
    show "\<exists>st' new. processBlocksAtDepth gen depth st = Inr st' \<and>
        outputArray st' = outputArray st @ new \<and> wrapperTag st' = None \<and>
        indentLevel st' = baseIndent st \<and>
        (\<forall>S. wrapperScan (openStack (wrapperTag st) @ S) new = Some S)"
    proof (cases "\<exists>block. blockAt gen (currentBlock st) = Some block \<and> getDepth block = depth")
      case False
      then have "processBlocksAtDepth gen depth st = closeWrapperTag st"
        by (subst processBlocksAtDepth.simps) (auto split: option.splits)
      then show ?thesis
        using closeWrapperTag_balanced[OF w b0] by simp
    next
      case True
      then obtain block where b: "blockAt gen (currentBlock st) = Some block"
        and d: "getDepth block = depth"
        by blast
      have c: "currentBlock st < length (blocks gen)"
        using b by (simp add: blockAt_def split: if_splits)
      obtain st1 where p: "processBlock gen st = Inr st1" and bs: "balancedStep st st1"
        using "2.IH"(1)[OF b d] c w b0 by blast
      obtain new1 where o1: "outputArray st1 = outputArray st @ new1"
        and sc1: "\<And>S. wrapperScan (openStack (wrapperTag st) @ S) new1 =
                      Some (openStack (wrapperTag st1) @ S)"
        and lw1: "listWrapper (wrapperTag st1)" and base1: "baseIndent st1 = baseIndent st"
        using bs by (auto simp: balancedStep_def)
      obtain st' new2 where q: "processBlocksAtDepth gen depth st1 = Inr st'"
        and o2: "outputArray st' = outputArray st1 @ new2" and w': "wrapperTag st' = None"
        and i': "indentLevel st' = baseIndent st1"
        and sc2: "\<And>S. wrapperScan (openStack (wrapperTag st1) @ S) new2 = Some S"
        using "2.IH"(2)[OF b d p] lw1 base1 b0 by auto
      have "processBlocksAtDepth gen depth st = Inr st'"
        using b d p q by (subst processBlocksAtDepth.simps) simp
      moreover have "outputArray st' = outputArray st @ (new1 @ new2)"
        using o1 o2 by simp
      moreover have "wrapperScan (openStack (wrapperTag st) @ S) (new1 @ new2) = Some S" for S
        by (simp add: wrapperScan_append sc1 sc2)
      ultimately show ?thesis
        using w' i' base1 by metis
    qed
  qed
qed

lemma generate_loop_balanced:
  "listWrapper (wrapperTag st) \<Longrightarrow> 0 \<le> baseIndent st \<Longrightarrow>
   \<exists>st'. generate_loop gen st = Inr st' \<and> balancedStep st st'"
proof (induction gen st rule: generate_loop.induct)
  case (1 gen st)
  show ?case
  proof (cases "currentBlock st < length (blocks gen)")
    case False
    then have "generate_loop gen st = Inr st"
      by (subst generate_loop.simps) simp
    then show ?thesis
      using balancedStep_refl[OF "1.prems"(1)] by simp
  next
    case True
    obtain st1 where p: "processBlock gen st = Inr st1" and bs: "balancedStep st st1"
      using traversal_balanced(1)[of st gen] True "1.prems" by blast
    have "listWrapper (wrapperTag st1)" "0 \<le> baseIndent st1"
      using bs "1.prems"(2) by (simp_all add: balancedStep_def)
    then obtain st' where q: "generate_loop gen st1 = Inr st'" and bs': "balancedStep st1 st'"
      using "1.IH"[OF True p] by blast
    have "generate_loop gen st = Inr st'"
      using True p q by (subst generate_loop.simps) simp
    then show ?thesis
      using balancedStep_trans[OF bs bs'] by blast
  qed
qed

lemma generate_run_balanced:
  "\<exists>st. generate_run gen = Inr st \<and> wrapperTag st = None \<and> indentLevel st = 0 \<and>
        wrapperScan [] (outputArray st) = Some []"
proof -
  let ?init = "\<lparr>outputArray = [], currentBlock = 0, indentLevel = 0, wrapperTag = None\<rparr>"
  have i: "listWrapper (wrapperTag ?init)" "0 \<le> baseIndent ?init"
    by (simp_all add: listWrapper_def baseIndent_def)
  obtain st1 where l: "generate_loop gen ?init = Inr st1" and bs: "balancedStep ?init st1"
    using generate_loop_balanced[OF i] by blast
  obtain new1 where o1: "outputArray st1 = new1"
    and sc1: "\<And>S. wrapperScan S new1 = Some (openStack (wrapperTag st1) @ S)"
    and lw1: "listWrapper (wrapperTag st1)" and base1: "baseIndent st1 = 0"
    using bs by (auto simp: balancedStep_def baseIndent_def)
  obtain st new2 where c: "closeWrapperTag st1 = Inr st"
    and o2: "outputArray st = outputArray st1 @ new2" and w: "wrapperTag st = None"
    and lv: "indentLevel st = baseIndent st1"
    and sc2: "\<And>S. wrapperScan (openStack (wrapperTag st1) @ S) new2 = Some S"
    using closeWrapperTag_balanced[OF lw1] base1 by auto
  have "generate_run gen = Inr st"
    using l c by (simp add: generate_run_def)
  moreover have "wrapperScan [] (outputArray st) = Some []"
    using sc1[of "[]"] sc2[of "[]"] by (simp add: o2 o1 wrapperScan_append)
  ultimately show ?thesis
    using w lv base1 by simp
qed

text \<open>
  Claim C6. Where the wrapper the block at the cursor needs is not the wrapper that is
  open, \<open>processBlock\<close> first appends the closing of the open wrapper, if there is one,
  and after it the opening of the needed wrapper, if there is one, each after its
  indentation, and everything else the block emits comes after these. And for every
  document \<open>generate\<close> raises nothing, leaves no wrapper open, and the wrapper fragments
  of its output match: each closing meets the opening of its own tag, and no opening
  remains on the stack when the output is returned.
\<close>

theorem wrappers_closed:
  "(listWrapper (wrapperTag st) \<and> 0 \<le> baseIndent st \<and>
    blockAt gen (currentBlock st) = Some block \<and>
    wrapperTag st \<noteq> getWrapperTag (getType block) \<longrightarrow>
      (\<exists>st1 st' rest.
         switchWrapperTag (getWrapperTag (getType block)) st = Inr st1 \<and>
         outputArray st1 = outputArray st @
           (case wrapperTag st of
              None \<Rightarrow> []
            | Some w \<Rightarrow> [concat (replicate (nat (baseIndent st)) INDENT),
                         ''</'' @ w @ ''>'' @ [NEWLINE]]) @
           (case getWrapperTag (getType block) of
              None \<Rightarrow> []
            | Some w' \<Rightarrow> [concat (replicate (nat (baseIndent st)) INDENT),
                          ''<'' @ w' @ ''>'' @ [NEWLINE]]) \<and>
         wrapperTag st1 = getWrapperTag (getType block) \<and>
         processBlock gen st = Inr st' \<and> outputArray st' = outputArray st1 @ rest)) \<and>
   (\<exists>st. generate_run gen = Inr st \<and> wrapperTag st = None \<and>
         wrapperScan [] (outputArray st) = Some [] \<and>
         generate gen = Inr (trim (join [] (outputArray st))))"
proof -
  have "\<exists>st1 st' rest.
         switchWrapperTag (getWrapperTag (getType block)) st = Inr st1 \<and>
         outputArray st1 = outputArray st @
           (case wrapperTag st of
              None \<Rightarrow> []
            | Some w \<Rightarrow> [concat (replicate (nat (baseIndent st)) INDENT),
                         ''</'' @ w @ ''>'' @ [NEWLINE]]) @
           (case getWrapperTag (getType block) of
              None \<Rightarrow> []
            | Some w' \<Rightarrow> [concat (replicate (nat (baseIndent st)) INDENT),
                          ''<'' @ w' @ ''>'' @ [NEWLINE]]) \<and>
         wrapperTag st1 = getWrapperTag (getType block) \<and>
         processBlock gen st = Inr st' \<and> outputArray st' = outputArray st1 @ rest"
    if w: "listWrapper (wrapperTag st)" and b0: "0 \<le> baseIndent st"
      and b: "blockAt gen (currentBlock st) = Some block"
      and ne: "wrapperTag st \<noteq> getWrapperTag (getType block)"
  proof -
    have c: "currentBlock st < length (blocks gen)" and bl: "blocks gen ! currentBlock st = block"
      using b by (simp_all add: blockAt_def split: if_splits)
    obtain st1 st' where s1: "switchWrapperTag (getWrapperTag (getType block)) st = Inr st1"
      and p: "processBlock gen st = Inr st'" and bs: "balancedStep st1 st'"
      using traversal_balanced(1)[of st gen] c w b0 bl by auto
    obtain rest where r: "outputArray st' = outputArray st1 @ rest"
      using bs by (auto simp: balancedStep_def)
    note f = switchWrapperTag_fragments[OF w listWrapper_getWrapperTag b0 ne]
    have "outputArray st1 = outputArray st @
           (case wrapperTag st of
              None \<Rightarrow> []
            | Some w \<Rightarrow> [concat (replicate (nat (baseIndent st)) INDENT),
                         ''</'' @ w @ ''>'' @ [NEWLINE]]) @
           (case getWrapperTag (getType block) of
              None \<Rightarrow> []
            | Some w' \<Rightarrow> [concat (replicate (nat (baseIndent st)) INDENT),
                          ''<'' @ w' @ ''>'' @ [NEWLINE]])"
      and "wrapperTag st1 = getWrapperTag (getType block)"
      using s1 unfolding f by auto
    then show ?thesis
      using s1 p r by blast
  qed
  moreover have "\<exists>st. generate_run gen = Inr st \<and> wrapperTag st = None \<and>
         wrapperScan [] (outputArray st) = Some [] \<and>
         generate gen = Inr (trim (join [] (outputArray st)))"
    using generate_run_balanced[of gen] by (auto simp: generate_def)
  ultimately show ?thesis
    by blast
qed

theorem wrappers_closed_witness:
  "listWrapper
     (wrapperTag \<lparr>outputArray = [], currentBlock = 0, indentLevel = 1, wrapperTag = Some ''ol''\<rparr>) \<and>
   0 \<le> baseIndent
         \<lparr>outputArray = [], currentBlock = 0, indentLevel = 1, wrapperTag = Some ''ol''\<rparr> \<and>
   blockAt (plainGenerator nestedList) 0 = Some (nestedList ! 0) \<and>
   Some ''ol'' \<noteq> getWrapperTag (getType (nestedList ! 0)) \<and>
   (\<exists>st1 st' rest.
      switchWrapperTag (Some ''ul'')
        \<lparr>outputArray = [], currentBlock = 0, indentLevel = 1, wrapperTag = Some ''ol''\<rparr> =
        Inr st1 \<and>
      outputArray st1 = [[], ''</ol>\<newline>'', [], ''<ul>\<newline>''] \<and>
      wrapperTag st1 = Some ''ul'' \<and>
      processBlock (plainGenerator nestedList)
        \<lparr>outputArray = [], currentBlock = 0, indentLevel = 1, wrapperTag = Some ''ol''\<rparr> =
        Inr st' \<and>
      outputArray st' = outputArray st1 @ rest) \<and>
   (\<exists>st. generate_run (plainGenerator nestedList) = Inr st \<and> wrapperTag st = None \<and>
         wrapperScan [] (outputArray st) = Some [] \<and>
         generate (plainGenerator nestedList) = Inr (trim (join [] (outputArray st))))"
proof -
  let ?st = "\<lparr>outputArray = [], currentBlock = 0, indentLevel = 1, wrapperTag = Some ''ol''\<rparr>"
  have h: "listWrapper (wrapperTag ?st)" "0 \<le> baseIndent ?st"
    "blockAt (plainGenerator nestedList) (currentBlock ?st) = Some (nestedList ! 0)"
    "wrapperTag ?st \<noteq> getWrapperTag (getType (nestedList ! 0))"
    by (simp_all add: listWrapper_def baseIndent_def blockAt_def plainGenerator_def
        nestedList_def)
  have g: "getWrapperTag (getType (nestedList ! 0)) = Some ''ul''"
    by (simp add: nestedList_def)
  note T = wrappers_closed[of ?st "plainGenerator nestedList" "nestedList ! 0"]
  from T h have "\<exists>st1 st' rest.
      switchWrapperTag (getWrapperTag (getType (nestedList ! 0))) ?st = Inr st1 \<and>
      outputArray st1 = outputArray ?st @
        (case wrapperTag ?st of
           None \<Rightarrow> []
         | Some w \<Rightarrow> [concat (replicate (nat (baseIndent ?st)) INDENT),
                      ''</'' @ w @ ''>'' @ [NEWLINE]]) @
        (case getWrapperTag (getType (nestedList ! 0)) of
           None \<Rightarrow> []
         | Some w' \<Rightarrow> [concat (replicate (nat (baseIndent ?st)) INDENT),
                       ''<'' @ w' @ ''>'' @ [NEWLINE]]) \<and>
      wrapperTag st1 = getWrapperTag (getType (nestedList ! 0)) \<and>
      processBlock (plainGenerator nestedList) ?st = Inr st' \<and>
      outputArray st' = outputArray st1 @ rest"
    by blast
  then have a: "\<exists>st1 st' rest.
      switchWrapperTag (Some ''ul'') ?st = Inr st1 \<and>
      outputArray st1 = [[], ''</ol>\<newline>'', [], ''<ul>\<newline>''] \<and>
      wrapperTag st1 = Some ''ul'' \<and>
      processBlock (plainGenerator nestedList) ?st = Inr st' \<and>
      outputArray st' = outputArray st1 @ rest"
    by (simp add: g baseIndent_def NEWLINE_def)
  from T have b: "\<exists>st. generate_run (plainGenerator nestedList) = Inr st \<and> wrapperTag st = None \<and>
         wrapperScan [] (outputArray st) = Some [] \<and>
         generate (plainGenerator nestedList) = Inr (trim (join [] (outputArray st)))"
    by (rule conjunct2)
  have "Some ''ol'' \<noteq> getWrapperTag (getType (nestedList ! 0))"
    using h(4) by simp
  moreover have "blockAt (plainGenerator nestedList) 0 = Some (nestedList ! 0)"
    using h(3) by simp
  ultimately show ?thesis
    using h(1,2) a b by (intro conjI)
qed

section \<open>A nested list\<close>

lemma trim_markup:
  "trim (CHR ''<'' # s @ [CHR ''>'', NEWLINE]) = CHR ''<'' # s @ [CHR ''>'']"
  by (simp add: trim_def isTrimmed_def NEWLINE_def)

text \<open>
  Claim C2. For a document of three unordered list items at the depths 0, 1 and 0 the
  output is one list: its opening, the first item, which holds its content and a nested
  list with the second item, the third item as a sibling of the first, and the closing
  of the outer list once, at the end.
\<close>

theorem nested_list_output:
  assumes "blocks gen = [b1, b2, b3]"
    and "getType b1 = UNORDERED_LIST_ITEM" and "getDepth b1 = 0"
    and "getType b2 = UNORDERED_LIST_ITEM" and "getDepth b2 = 1"
    and "getType b3 = UNORDERED_LIST_ITEM" and "getDepth b3 = 0"
  shows "generate gen =
     Inr (''<ul>\<newline>  <li>'' @ renderBlockContent gen b1 @
          ''\<newline>    <ul>\<newline>      <li>'' @ renderBlockContent gen b2 @
          ''</li>\<newline>    </ul>\<newline>  </li>\<newline>  <li>'' @ renderBlockContent gen b3 @
          ''</li>\<newline></ul>'')"
proof -
  have "generate_run gen = Inr
     \<lparr>outputArray =
        [[], ''<ul>\<newline>'', ''  '', ''<li>'', renderBlockContent gen b1, ''\<newline>'',
         ''    '', ''<ul>\<newline>'', ''      '', ''<li>'', renderBlockContent gen b2,
         ''</li>\<newline>'', ''    '', ''</ul>\<newline>'', ''  '', ''</li>\<newline>'',
         ''  '', ''<li>'', renderBlockContent gen b3, ''</li>\<newline>'',
         [], ''</ul>\<newline>''],
      currentBlock = 3, indentLevel = 0, wrapperTag = None\<rparr>"
    using assms
    by (simp add: generate_run_def generate_loop.simps processBlock.simps
        processBlocksAtDepth.simps blockAt_def getNextBlock_def switchWrapperTag_def
        openWrapperTag_def closeWrapperTag_def indent_def push_def writeStartTag_def
        writeEndTag_def Let_def INDENT_def NEWLINE_def numeral_2_eq_2 numeral_3_eq_3)
  then show ?thesis
    using trim_markup[of "''ul>\<newline>  <li>'' @ renderBlockContent gen b1 @
          ''\<newline>    <ul>\<newline>      <li>'' @ renderBlockContent gen b2 @
          ''</li>\<newline>    </ul>\<newline>  </li>\<newline>  <li>'' @ renderBlockContent gen b3 @
          ''</li>\<newline></ul''"]
    by (simp add: generate_def join_Nil NEWLINE_def)
qed

theorem nested_list_output_witness:
  "blocks (plainGenerator nestedList) = [nestedList ! 0, nestedList ! 1, nestedList ! 2] \<and>
   getType (nestedList ! 0) = UNORDERED_LIST_ITEM \<and> getDepth (nestedList ! 0) = 0 \<and>
   getType (nestedList ! 1) = UNORDERED_LIST_ITEM \<and> getDepth (nestedList ! 1) = 1 \<and>
   getType (nestedList ! 2) = UNORDERED_LIST_ITEM \<and> getDepth (nestedList ! 2) = 0 \<and>
   generate (plainGenerator nestedList) =
     Inr ''<ul>\<newline>  <li>one\<newline>    <ul>\<newline>      <li>two</li>\<newline>    </ul>\<newline>  </li>\<newline>  <li>three</li>\<newline></ul>''"
proof -
  have h: "blocks (plainGenerator nestedList) = [nestedList ! 0, nestedList ! 1, nestedList ! 2]"
    "getType (nestedList ! 0) = UNORDERED_LIST_ITEM" "getDepth (nestedList ! 0) = 0"
    "getType (nestedList ! 1) = UNORDERED_LIST_ITEM" "getDepth (nestedList ! 1) = 1"
    "getType (nestedList ! 2) = UNORDERED_LIST_ITEM" "getDepth (nestedList ! 2) = 0"
    by (simp_all add: plainGenerator_def nestedList_def)
  have r: "renderBlockContent (plainGenerator nestedList) (nestedList ! 0) = ''one''"
    "renderBlockContent (plainGenerator nestedList) (nestedList ! 1) = ''two''"
    "renderBlockContent (plainGenerator nestedList) (nestedList ! 2) = ''three''"
    by code_simp+
  have "generate (plainGenerator nestedList) =
     Inr ''<ul>\<newline>  <li>one\<newline>    <ul>\<newline>      <li>two</li>\<newline>    </ul>\<newline>  </li>\<newline>  <li>three</li>\<newline></ul>''"
    using nested_list_output[OF h, unfolded r] by simp
  then show ?thesis
    using h by (intro conjI)
qed

end
